theory Spec2Isabelle
  imports Main
begin

section \<open>The test-data generator \<open>json_test_data.py\<close>\<close>

text \<open>
  The module is a script: it raises the interpreter's integer-to-string limit, builds the
  dictionary \<open>test_object\<close> from literals and random draws, appends two aggregate entries
  and prints every value through the external function \<open>dumps\<close>. The model threads one
  record of interpreter state (random source, conversion limit, standard output) through
  the statements in source order; every library call that can raise returns its error as
  a value.
\<close>

subsection \<open>Values\<close>

text \<open>
  A Python \<open>str\<close> is a sequence of code points. Dictionary keys of this program are ASCII
  literals and are kept as HOL strings. \<open>PDecimal t\<close> is \<open>Decimal(t)\<close>, identified by the
  literal text it was constructed from; \<open>PFloat n\<close> is \<open>float(n)\<close>, the binary64 value
  nearest to the integer \<open>n\<close> (negation of a float is exact, so \<open>-float(n)\<close> is
  \<open>PFloat (- n)\<close>). Lists and dictionaries are values: the program never mutates a
  container after another container refers to it, so \<open>copy\<close> is the identity on values.
\<close>

type_synonym pystr = "nat list"

datatype pyval =
    PNone
  | PBool bool
  | PStr pystr
  | PInt int
  | PDecimal pystr
  | PFloat int
  | PList "pyval list"
  | PDict "(string \<times> pyval) list"

type_synonym pydict = "(string \<times> pyval) list"

datatype error = ValueError | IndexError | KeyError | OverflowError | TypeError

subsection \<open>Interpreter state and sequencing\<close>

record runtime =
  rng :: "nat \<Rightarrow> nat"
  int_max_str_digits :: nat
  stdout :: pystr

type_synonym 'a prog = "runtime \<Rightarrow> (error + 'a) \<times> runtime"

definition pret :: "'a \<Rightarrow> 'a prog" where
  "pret x = (\<lambda>s. (Inr x, s))"

definition raise :: "error \<Rightarrow> 'a prog" where
  "raise e = (\<lambda>s. (Inl e, s))"

definition pbind :: "'a prog \<Rightarrow> ('a \<Rightarrow> 'b prog) \<Rightarrow> 'b prog" where
  "pbind m f = (\<lambda>s. case m s of (Inl e, s') \<Rightarrow> (Inl e, s') | (Inr x, s') \<Rightarrow> f x s')"

definition pmap :: "('a \<Rightarrow> 'b) \<Rightarrow> 'a prog \<Rightarrow> 'b prog" where
  "pmap f m = pbind m (\<lambda>x. pret (f x))"

text \<open>\<open>[e for x in range(n)]\<close> with \<open>x\<close> unused in \<open>e\<close>: \<open>n\<close> evaluations of \<open>e\<close> in order.\<close>

primrec listcomp :: "nat \<Rightarrow> 'a prog \<Rightarrow> 'a list prog" where
  "listcomp 0 g = pret []"
| "listcomp (Suc n) g = pbind g (\<lambda>x. pbind (listcomp n g) (\<lambda>xs. pret (x # xs)))"

text \<open>\<open>(f(x) for x in xs)\<close> consumed in order.\<close>

primrec formap :: "('a \<Rightarrow> 'b prog) \<Rightarrow> 'a list \<Rightarrow> 'b list prog" where
  "formap f [] = pret []"
| "formap f (x # xs) = pbind (f x) (\<lambda>y. pbind (formap f xs) (\<lambda>ys. pret (y # ys)))"

subsection \<open>Library calls\<close>

text \<open>
  The random source is an infinite sequence of raw natural numbers; a draw takes the head
  and leaves the tail. \<open>random._randbelow(n)\<close> returns some number below \<open>n\<close>: the model
  reduces the raw draw modulo \<open>n\<close>, so every result below \<open>n\<close> is produced by some source.
  \<open>randint(a, b)\<close> is \<open>randrange(a, b + 1)\<close>, which raises \<open>ValueError\<close> on an empty range.
\<close>

definition randbelow :: "int \<Rightarrow> int prog" where
  "randbelow n = (\<lambda>s. (Inr (int (rng s 0 mod nat n)), s\<lparr>rng := \<lambda>i. rng s (Suc i)\<rparr>))"

definition randint :: "int \<Rightarrow> int \<Rightarrow> int prog" where
  "randint a b =
     (let width = b + 1 - a
      in if width > 0 then pmap (\<lambda>r. a + r) (randbelow width) else raise ValueError)"

text \<open>
  \<open>choices(population, k=k)\<close> indexes the population \<open>k\<close> times at a random position;
  indexing an empty population raises \<open>IndexError\<close>.
\<close>

definition choice1 :: "'a list \<Rightarrow> 'a prog" where
  "choice1 population =
     (if population = [] then raise IndexError
      else pmap (\<lambda>i. population ! nat i) (randbelow (int (length population))))"

definition choices :: "'a list \<Rightarrow> nat \<Rightarrow> 'a list prog" where
  "choices population k = listcomp k (choice1 population)"

text \<open>\<open>chr(i)\<close>: a one-code-point string, \<open>ValueError\<close> outside \<open>range(0x110000)\<close>.\<close>

definition chr :: "int \<Rightarrow> pystr prog" where
  "chr i = (if 0 \<le> i \<and> i < 0x110000 then pret [nat i] else raise ValueError)"

definition join :: "pystr list \<Rightarrow> pystr" where
  "join parts = concat parts"

text \<open>\<open>range(a, b)\<close> as a list.\<close>

definition py_range :: "int \<Rightarrow> int \<Rightarrow> int list" where
  "py_range a b = [a..b - 1]"

text \<open>
  Decimal digits of a natural number, most significant first, as code points
  (\<open>48\<close> is \<open>0\<close>).
\<close>

function digits10 :: "nat \<Rightarrow> pystr" where
  "digits10 n = (if n < 10 then [48 + n] else digits10 (n div 10) @ [48 + n mod 10])"
  by pat_completeness auto
termination
  by (relation "measure id") auto

declare digits10.simps [simp del]

text \<open>
  \<open>str(n)\<close> and the \<open>{n}\<close> field of an f-string: \<open>ValueError\<close> when the limit is nonzero and
  the number has more digits than the limit (the sign is not counted).
\<close>

definition str_of_int :: "int \<Rightarrow> pystr" where
  "str_of_int n = (if n < 0 then [45] else []) @ digits10 (nat \<bar>n\<bar>)"

definition int_to_str :: "int \<Rightarrow> pystr prog" where
  "int_to_str n = (\<lambda>s.
     if int_max_str_digits s \<noteq> 0 \<and> int_max_str_digits s < length (digits10 (nat \<bar>n\<bar>))
     then (Inl ValueError, s)
     else (Inr (str_of_int n), s))"

text \<open>
  \<open>sys.set_int_max_str_digits(maxdigits)\<close>: \<open>ValueError\<close> for a negative argument and for a
  nonzero one below the threshold \<open>sys.int_info.str_digits_check_threshold = 640\<close>.
\<close>

definition set_int_max_str_digits :: "int \<Rightarrow> unit prog" where
  "set_int_max_str_digits maxdigits = (\<lambda>s.
     if maxdigits = 0 \<or> 640 \<le> maxdigits
     then (Inr (), s\<lparr>int_max_str_digits := nat maxdigits\<rparr>)
     else (Inl ValueError, s))"

text \<open>
  \<open>ceil(log10(n))\<close> for an integer \<open>n\<close>: \<open>math.log10\<close> raises \<open>ValueError\<close> for \<open>n \<le> 0\<close>.
  The float returned by \<open>log10\<close> is not modelled; the function below is the exact
  ceiling of the logarithm, the least \<open>k\<close> with \<open>n \<le> 10 ^ k\<close>. For the one argument the
  program passes, \<open>2 ** 100000\<close>, the logarithm is \<open>30102.99957\<close> and the rounding error
  of \<open>log10\<close> (below \<open>10\<^sup>-\<^sup>1\<^sup>0\<close>) cannot reach the next integer, so both agree.
\<close>

function clog10 :: "nat \<Rightarrow> nat" where
  "clog10 n = (if n \<le> 1 then 0 else Suc (clog10 ((n + 9) div 10)))"
  by pat_completeness auto
termination
  by (relation "measure id") auto

declare clog10.simps [simp del]

definition ceil_log10 :: "int \<Rightarrow> error + int" where
  "ceil_log10 n = (if n \<le> 0 then Inl ValueError else Inr (int (clog10 (nat n))))"

text \<open>
  \<open>float(n)\<close> raises \<open>OverflowError\<close> when \<open>n\<close> rounds beyond the largest binary64 value.
\<close>

definition py_float :: "int \<Rightarrow> int prog" where
  "py_float n = (if \<bar>n\<bar> < 2 ^ 1024 - 2 ^ 970 then pret n else raise OverflowError)"

text \<open>\<open>print(text, end=e)\<close> appends to standard output.\<close>

definition print :: "pystr \<Rightarrow> pystr \<Rightarrow> unit prog" where
  "print text e = (\<lambda>s. (Inr (), s\<lparr>stdout := stdout s @ text @ e\<rparr>))"

subsection \<open>Dictionaries\<close>

text \<open>
  A \<open>dict\<close> keeps insertion order: assigning to a present key replaces the value in
  place, assigning to a new key appends.
\<close>

fun dict_set :: "pydict \<Rightarrow> string \<Rightarrow> pyval \<Rightarrow> pydict" where
  "dict_set [] k v = [(k, v)]"
| "dict_set ((k', v') # d) k v = (if k' = k then (k, v) # d else (k', v') # dict_set d k v)"

definition dict_get :: "pydict \<Rightarrow> string \<Rightarrow> pyval prog" where
  "dict_get d k = (case map_of d k of None \<Rightarrow> raise KeyError | Some v \<Rightarrow> pret v)"

definition keys :: "pydict \<Rightarrow> string list" where
  "keys d = map fst d"

text \<open>
  A dictionary display \<open>{k1: e1, k2: e2, ...}\<close> evaluates its value expressions in order
  and stores each under its key.
\<close>

fun dict_display :: "(string \<times> pyval prog) list \<Rightarrow> pydict \<Rightarrow> pydict prog" where
  "dict_display [] d = pret d"
| "dict_display ((k, e) # items) d = pbind e (\<lambda>v. dict_display items (dict_set d k v))"

subsection \<open>Module constants and configuration (lines 24--27)\<close>

definition INT_UPPER_LIMIT :: int where
  "INT_UPPER_LIMIT = 2 ^ 100000"

definition VALID_UTF8_CHARS :: "int list" where
  "VALID_UTF8_CHARS = py_range 0 0xD800 @ py_range 0xE000 0x110000"

text \<open>\<open>set_int_max_str_digits(2*ceil(log10(INT_UPPER_LIMIT))+1)\<close>\<close>

definition configure :: "unit prog" where
  "configure =
     (case ceil_log10 INT_UPPER_LIMIT of
        Inl e \<Rightarrow> raise e
      | Inr c \<Rightarrow> set_int_max_str_digits (2 * c + 1))"

subsection \<open>The dictionary display \<open>test_object\<close> (lines 29--90)\<close>

text \<open>\<open>"".join(chr(x) for x in choices(VALID_UTF8_CHARS, k=k))\<close>\<close>

definition utf8_string :: "nat \<Rightarrow> pystr prog" where
  "utf8_string k = pbind (choices VALID_UTF8_CHARS k) (\<lambda>xs. pmap join (formap chr xs))"

text \<open>
  \<open>Decimal(f"{a}.{b}")\<close> and, with prefix \<open>-\<close>, \<open>Decimal(f"-{a}.{b}")\<close>: each field is
  evaluated and converted to text before the next one is evaluated.
\<close>

definition decimal_fstring :: "pystr \<Rightarrow> int prog \<Rightarrow> int prog \<Rightarrow> pyval prog" where
  "decimal_fstring prefix ea eb =
     pbind ea (\<lambda>a. pbind (int_to_str a) (\<lambda>ta.
     pbind eb (\<lambda>b. pbind (int_to_str b) (\<lambda>tb.
     pret (PDecimal (prefix @ ta @ [46] @ tb))))))"

definition test_object_display :: "(string \<times> pyval prog) list" where
  "test_object_display = [
    (''boolean true'', pret (PBool True)),
    (''boolean false'', pret (PBool False)),
    (''null'', pret PNone),
    (''string 0'', pret (PStr [])),
    (''string ascii'', pmap (\<lambda>cs. PStr (join cs)) (listcomp 100000 (pbind (randint 0 127) chr))),
    (''string utf-8'', pmap PStr (utf8_string 100000)),
    (''resizing integer 1'', pmap PInt (randint 4294967296 72057594037927935)),
    (''resizing integer 2'', pmap PInt (randint 18446744073709551616 (2 ^ 2040 - 1))),
    (''negative resizing integer 1'',
       pmap (\<lambda>n. PInt (- n)) (randint 4294967296 72057594037927935)),
    (''negative resizing integer 2'',
       pmap (\<lambda>n. PInt (- n)) (randint 18446744073709551616 (2 ^ 2040 - 1))),
    (''unsigned 8-bit defined integer'', pmap PInt (randint 0 255)),
    (''unsigned 8-bit defined integer 2'', pret (PInt 0)),
    (''unsigned 16-bit defined integer'', pmap PInt (randint 256 65535)),
    (''unsigned 24-bit defined integer'', pmap PInt (randint 65536 16777215)),
    (''unsigned 32-bit defined integer'', pmap PInt (randint 16777216 4294967295)),
    (''unsigned 64-bit defined integer'',
       pmap PInt (randint 72057594037927936 18446744073709551615)),
    (''negative 8-bit defined integer'', pmap (\<lambda>n. PInt (- n)) (randint 0 255)),
    (''negative 16-bit defined integer'', pmap (\<lambda>n. PInt (- n)) (randint 256 65535)),
    (''negative 24-bit defined integer'', pmap (\<lambda>n. PInt (- n)) (randint 65536 16777215)),
    (''negative 32-bit defined integer'',
       pmap (\<lambda>n. PInt (- n)) (randint 16777216 4294967295)),
    (''negative 64-bit defined integer'',
       pmap (\<lambda>n. PInt (- n)) (randint 72057594037927936 18446744073709551615)),
    (''big integer'', pmap PInt (randint (2 ^ 2040) INT_UPPER_LIMIT)),
    (''negative big integer'', pmap (\<lambda>n. PInt (- n)) (randint (2 ^ 2040) INT_UPPER_LIMIT)),
    (''decimal 1'',
       decimal_fstring [] (randint 0 INT_UPPER_LIMIT) (randint 0 INT_UPPER_LIMIT)),
    (''decimal 2'',
       decimal_fstring [45] (randint 0 INT_UPPER_LIMIT) (randint 0 INT_UPPER_LIMIT)),
    (''decimal 3'', pmap PFloat (pbind (randint (2 ^ 54) (2 ^ 1000)) py_float)),
    (''decimal 4'',
       pmap (\<lambda>x. PFloat (- x)) (pbind (randint (2 ^ 54) (2 ^ 1000)) py_float)),
    (''object 1'', pret (PDict [(''meow'', PStr [109, 101, 111, 119])])),
    (''object 2'', pret (PDict [])),
    (''object 3'', pret (PDict [(''meow'', PDict [])])),
    (''multi-type array 1'', pret (PList [])),
    (''multi-type array 2'', pret (PList (replicate 100 (PList [])))),
    (''null array 1'', pret (PList [PNone])),
    (''null array 2'', pret (PList (replicate 10000 PNone))),
    (''bool array 1'', pret (PList [PBool True])),
    (''bool array 2'', pret (PList (replicate 10000 (PBool True)))),
    (''bool array 3'', pret (PList [PBool False])),
    (''bool array 4'', pret (PList (replicate 10000 (PBool False)))),
    (''bool array 5'', pmap (\<lambda>bs. PList (map PBool bs)) (choices [True, False] 10000)),
    (''string array 1'', pmap (\<lambda>ts. PList (map PStr ts)) (listcomp 1000 (utf8_string 100))),
    (''string array 2'', pmap (\<lambda>ts. PList (map PStr ts)) (listcomp 10000 (utf8_string 2))),
    (''resizing integer array'',
       pmap PList (listcomp 10000
         (pmap (\<lambda>n. PInt (- n)) (randint 4294967296 72057594037927935)))),
    (''negative resizing integer array'',
       pmap PList (listcomp 10000
         (pmap (\<lambda>n. PInt (- n)) (randint 4294967296 72057594037927935)))),
    (''unsigned 8-bit defined integer array'',
       pmap PList (listcomp 10000 (pmap PInt (randint 0 255)))),
    (''unsigned 16-bit defined integer array'',
       pmap PList (listcomp 10000 (pmap PInt (randint 256 65535)))),
    (''unsigned 24-bit defined integer array'',
       pmap PList (listcomp 10000 (pmap PInt (randint 65536 16777215)))),
    (''unsigned 32-bit defined integer array'',
       pmap PList (listcomp 10000 (pmap PInt (randint 16777216 4294967295)))),
    (''unsigned 64-bit defined integer array'',
       pmap PList (listcomp 10000
         (pmap PInt (randint 72057594037927936 18446744073709551615)))),
    (''negative 8-bit defined integer array'',
       pmap PList (listcomp 10000 (pmap (\<lambda>n. PInt (- n)) (randint 0 255)))),
    (''negative 16-bit defined integer array'',
       pmap PList (listcomp 10000 (pmap (\<lambda>n. PInt (- n)) (randint 256 65535)))),
    (''negative 24-bit defined integer array'',
       pmap PList (listcomp 10000 (pmap (\<lambda>n. PInt (- n)) (randint 65536 16777215)))),
    (''negative 32-bit defined integer array'',
       pmap PList (listcomp 10000 (pmap (\<lambda>n. PInt (- n)) (randint 16777216 4294967295)))),
    (''negative 64-bit defined integer array'',
       pmap PList (listcomp 10000
         (pmap (\<lambda>n. PInt (- n)) (randint 72057594037927936 18446744073709551615)))),
    (''big integer array'',
       pmap PList (listcomp 100 (pmap PInt (randint (2 ^ 2040) INT_UPPER_LIMIT)))),
    (''negative big integer array'',
       pmap PList (listcomp 100 (pmap PInt (randint (2 ^ 2040) INT_UPPER_LIMIT)))),
    (''decimal array'',
       pmap PList (listcomp 100
         (decimal_fstring [] (randint (- INT_UPPER_LIMIT) INT_UPPER_LIMIT)
            (randint 0 INT_UPPER_LIMIT))))
  ]"

subsection \<open>The aggregate entries and the output (lines 92--101)\<close>

text \<open>
  Lines 92--94: \<open>multi_type_array_3\<close> is the list of the values under every key, with a
  copy of that list appended, stored under a new key.
\<close>

definition add_multi_type_array_3 :: "pydict \<Rightarrow> pydict prog" where
  "add_multi_type_array_3 test_object =
     pbind (formap (dict_get test_object) (keys test_object)) (\<lambda>multi_type_array_3.
     pret (dict_set test_object ''multi-type array 3''
             (PList (multi_type_array_3 @ [PList multi_type_array_3]))))"

text \<open>Lines 24--94: the state of \<open>test_object\<close> when the output loop starts.\<close>

definition corpus :: "pydict prog" where
  "corpus =
     pbind configure (\<lambda>_.
     pbind (dict_display test_object_display []) add_multi_type_array_3)"

text \<open>
  \<open>dumps\<close> comes from the module \<open>json_with_decimals\<close>, which is not part of the source: it
  is a parameter. It may raise, and it runs under the conversion limit in force.
\<close>

type_synonym dumps_fn = "nat \<Rightarrow> pyval \<Rightarrow> error + pystr"

definition call_dumps :: "dumps_fn \<Rightarrow> pyval \<Rightarrow> pystr prog" where
  "call_dumps dumps v = (\<lambda>s.
     case dumps (int_max_str_digits s) v of Inl e \<Rightarrow> (Inl e, s) | Inr t \<Rightarrow> (Inr t, s))"

primrec foreach :: "'a list \<Rightarrow> ('a \<Rightarrow> unit prog) \<Rightarrow> unit prog" where
  "foreach [] body = pret ()"
| "foreach (x # xs) body = pbind (body x) (\<lambda>_. foreach xs body)"

text \<open>Line 99: \<open>test_object["object 4"] = copy(test_object)\<close>; the copy is taken first.\<close>

definition add_object_4 :: "pydict \<Rightarrow> pydict" where
  "add_object_4 test_object = dict_set test_object ''object 4'' (PDict test_object)"

text \<open>Lines 96--101.\<close>

definition emit :: "dumps_fn \<Rightarrow> pydict \<Rightarrow> unit prog" where
  "emit dumps test_object =
     pbind (foreach (keys test_object) (\<lambda>x.
              pbind (dict_get test_object x) (\<lambda>v.
              pbind (call_dumps dumps v) (\<lambda>t. print t [10])))) (\<lambda>_.
     pbind (call_dumps dumps (PDict (add_object_4 test_object))) (\<lambda>t.
     print t []))"

definition main :: "dumps_fn \<Rightarrow> unit prog" where
  "main dumps = pbind corpus (emit dumps)"

subsection \<open>Observations\<close>

text \<open>
  What a run is observed by. \<open>result\<close> is the value a program returns, if it returns;
  \<open>entry k s\<close> is \<open>test_object[k]\<close> after line 94, the run having started in state \<open>s\<close>,
  and \<open>None\<close> when the run raises or the key is absent.
\<close>

definition result :: "(error + 'a) \<times> runtime \<Rightarrow> 'a option" where
  "result r = (case fst r of Inl e \<Rightarrow> None | Inr x \<Rightarrow> Some x)"

definition entry :: "string \<Rightarrow> runtime \<Rightarrow> pyval option" where
  "entry k s = (case result (corpus s) of None \<Rightarrow> None | Some d \<Rightarrow> map_of d k)"

text \<open>
  An entry that is an integer satisfying \<open>P\<close>; an entry that is a list of \<open>m\<close> integers all
  satisfying \<open>P\<close>.
\<close>

definition scalar_sat :: "string \<Rightarrow> runtime \<Rightarrow> (int \<Rightarrow> bool) \<Rightarrow> bool" where
  "scalar_sat k s P \<longleftrightarrow> (\<exists>n. entry k s = Some (PInt n) \<and> P n)"

definition array_sat :: "string \<Rightarrow> runtime \<Rightarrow> nat \<Rightarrow> (int \<Rightarrow> bool) \<Rightarrow> bool" where
  "array_sat k s m P \<longleftrightarrow>
     (\<exists>ns. entry k s = Some (PList (map PInt ns)) \<and> length ns = m \<and> list_all P ns)"

text \<open>
  The four entries of the bit width \<open>w\<close>: the unsigned scalar and array above the previous
  width's maximum \<open>prev\<close> and up to the width's maximum \<open>cur\<close>, the negative scalar and
  array in the mirrored range.
\<close>

definition width_band :: "runtime \<Rightarrow> string \<Rightarrow> int \<Rightarrow> int \<Rightarrow> bool" where
  "width_band s w prev cur \<longleftrightarrow>
     scalar_sat (''unsigned '' @ w @ ''-bit defined integer'') s (\<lambda>n. prev < n \<and> n \<le> cur) \<and>
     array_sat (''unsigned '' @ w @ ''-bit defined integer array'') s 10000
       (\<lambda>n. prev < n \<and> n \<le> cur) \<and>
     scalar_sat (''negative '' @ w @ ''-bit defined integer'') s
       (\<lambda>n. - cur \<le> n \<and> n < - prev) \<and>
     array_sat (''negative '' @ w @ ''-bit defined integer array'') s 10000
       (\<lambda>n. - cur \<le> n \<and> n < - prev)"

text \<open>
  All strings inside a value: string values at any depth and, as code points, the keys
  of dictionaries. A code point is non-surrogate when it lies in \<open>range(0, 0xD800)\<close> or
  \<open>range(0xE000, 0x110000)\<close>.
\<close>

fun strings_of :: "pyval \<Rightarrow> pystr list" where
  "strings_of (PStr t) = [t]"
| "strings_of (PList xs) = concat (map strings_of xs)"
| "strings_of (PDict kvs) =
     concat (map (\<lambda>kv. map of_char (fst kv) # strings_of (snd kv)) kvs)"
| "strings_of v = []"

definition non_surrogate :: "nat \<Rightarrow> bool" where
  "non_surrogate c \<longleftrightarrow> c < 0xD800 \<or> (0xE000 \<le> c \<and> c < 0x110000)"

definition strs_ok :: "pyval \<Rightarrow> bool" where
  "strs_ok v \<longleftrightarrow> list_all (list_all non_surrogate) (strings_of v)"

text \<open>
  A concrete initial state, with the interpreter's default limit of 4300 digits and nothing
  written yet: the random source that always draws \<open>0\<close>.
\<close>

definition zero_runtime :: runtime where
  "zero_runtime = \<lparr>rng = \<lambda>_. 0, int_max_str_digits = 4300, stdout = []\<rparr>"

subsection \<open>Proof vocabulary\<close>

text \<open>
  \<open>rt_inv A L out\<close> holds of the states whose random source only draws numbers of \<open>A\<close>,
  whose limit is \<open>L\<close> and whose output is \<open>out\<close>; every library call of the corpus
  construction preserves it. \<open>valid I m Q\<close>: from every state of \<open>I\<close> the program \<open>m\<close>
  returns normally, in a state of \<open>I\<close>, a value satisfying \<open>Q\<close>. \<open>sp I e v\<close>: \<open>v\<close> is returned
  by \<open>e\<close> from some state of \<open>I\<close>. \<open>built I Q items d\<close>: \<open>d\<close> has the keys of the display
  \<open>items\<close>, in order, each with a value that its expression returns and that satisfies \<open>Q\<close>.
  \<open>drawn A a b n\<close> and \<open>picked A xs x\<close>: \<open>n\<close> is what \<open>randint(a, b)\<close>, and \<open>x\<close> what one
  choice from \<open>xs\<close>, makes of some raw draw of \<open>A\<close>.
\<close>

definition rt_inv :: "nat set \<Rightarrow> nat \<Rightarrow> pystr \<Rightarrow> runtime \<Rightarrow> bool" where
  "rt_inv A L out s \<longleftrightarrow> (\<forall>i. rng s i \<in> A) \<and> int_max_str_digits s = L \<and> stdout s = out"

definition valid :: "(runtime \<Rightarrow> bool) \<Rightarrow> 'a prog \<Rightarrow> ('a \<Rightarrow> bool) \<Rightarrow> bool" where
  "valid I m Q \<longleftrightarrow> (\<forall>s. I s \<longrightarrow> (\<exists>x s'. m s = (Inr x, s') \<and> I s' \<and> Q x))"

definition sp :: "(runtime \<Rightarrow> bool) \<Rightarrow> 'a prog \<Rightarrow> 'a \<Rightarrow> bool" where
  "sp I e v \<longleftrightarrow> (\<exists>s s'. I s \<and> e s = (Inr v, s'))"

definition built :: "(runtime \<Rightarrow> bool) \<Rightarrow> (pyval \<Rightarrow> bool) \<Rightarrow>
    (string \<times> pyval prog) list \<Rightarrow> pydict \<Rightarrow> bool" where
  "built I Q items d \<longleftrightarrow>
     list_all2 (\<lambda>item kv. fst kv = fst item \<and> sp I (snd item) (snd kv) \<and> Q (snd kv)) items d"

definition drawn :: "nat set \<Rightarrow> int \<Rightarrow> int \<Rightarrow> int \<Rightarrow> bool" where
  "drawn A a b n \<longleftrightarrow> (\<exists>r\<in>A. n = a + int (r mod nat (b + 1 - a)))"

definition picked :: "nat set \<Rightarrow> 'a list \<Rightarrow> 'a \<Rightarrow> bool" where
  "picked A xs x \<longleftrightarrow> (\<exists>r\<in>A. x = xs ! (r mod length xs))"

text \<open>
  Bounds on powers of \<open>1024 = 2 ^ 10\<close> by a 22-digit mantissa and a power of ten, used to
  place \<open>2 ^ 100000\<close> between \<open>10 ^ 30102\<close> and \<open>10 ^ 30103\<close> without computing it.
\<close>

definition pow_ub :: "nat \<Rightarrow> nat \<Rightarrow> nat \<Rightarrow> bool" where
  "pow_ub n m e \<longleftrightarrow> (1024::nat) ^ n \<le> m * 10 ^ e"

definition pow_lb :: "nat \<Rightarrow> nat \<Rightarrow> nat \<Rightarrow> bool" where
  "pow_lb n m e \<longleftrightarrow> m * 10 ^ e \<le> (1024::nat) ^ n"

named_theorems entry_ok

section \<open>Proofs\<close>

subsection \<open>The size of \<open>2 ^ 100000\<close>\<close>

lemma pow_ub_step:
  assumes "pow_ub n m e" and "m ^ p \<le> m' * 10 ^ d"
  shows "pow_ub (n * p) m' (d + e * p)"
proof -
  have "(1024::nat) ^ (n * p) = (1024 ^ n) ^ p"
    by (rule power_mult)
  also have "\<dots> \<le> (m * 10 ^ e) ^ p"
    using assms(1) unfolding pow_ub_def by (rule power_mono) simp
  also have "\<dots> = m ^ p * 10 ^ (e * p)"
    by (simp only: power_mult_distrib power_mult)
  also have "\<dots> \<le> (m' * 10 ^ d) * 10 ^ (e * p)"
    using assms(2) by (rule mult_right_mono) simp
  also have "\<dots> = m' * 10 ^ (d + e * p)"
    by (simp only: power_add mult.assoc)
  finally show ?thesis
    unfolding pow_ub_def .
qed

lemma pow_lb_step:
  assumes "pow_lb n m e" and "m' * 10 ^ d \<le> m ^ p"
  shows "pow_lb (n * p) m' (d + e * p)"
proof -
  have "m' * 10 ^ (d + e * p) = (m' * 10 ^ d) * 10 ^ (e * p)"
    by (simp only: power_add mult.assoc)
  also have "\<dots> \<le> m ^ p * 10 ^ (e * p)"
    using assms(2) by (rule mult_right_mono) simp
  also have "\<dots> = (m * 10 ^ e) ^ p"
    by (simp only: power_mult_distrib power_mult)
  also have "\<dots> \<le> (1024 ^ n) ^ p"
    using assms(1) unfolding pow_lb_def by (rule power_mono) simp
  also have "\<dots> = (1024::nat) ^ (n * p)"
    by (rule power_mult [symmetric])
  finally show ?thesis
    unfolding pow_lb_def .
qed

lemma pow_ub_10000: "pow_ub 10000 9990020930143845081186 30081"
proof -
  have u0: "pow_ub 1 1024 0"
    by (simp add: pow_ub_def)
  have u1: "pow_ub 5 1125899906842624 0"
    using pow_ub_step [OF u0, of 5 1125899906842624 0] by simp
  have u2: "pow_ub 25 1809251394333065553494 54"
    using pow_ub_step [OF u1, of 5 1809251394333065553494 54] by simp
  have u3: "pow_ub 125 1938628441591635175412 355"
    using pow_ub_step [OF u2, of 5 1938628441591635175412 85] by simp
  have u4: "pow_ub 625 2738248761316017572772 1860"
    using pow_ub_step [OF u3, of 5 2738248761316017572772 85] by simp
  have u5: "pow_ub 1250 7498006278848704575295 3741"
    using pow_ub_step [OF u4, of 2 7498006278848704575295 21] by simp
  have u6: "pow_ub 2500 5622009815765459775218 7504"
    using pow_ub_step [OF u5, of 2 5622009815765459775218 22] by simp
  have u7: "pow_ub 5000 3160699436856317896412 15030"
    using pow_ub_step [OF u6, of 2 3160699436856317896412 22] by simp
  show ?thesis
    using pow_ub_step [OF u7, of 2 9990020930143845081186 21] by simp
qed

lemma pow_lb_10000: "pow_lb 10000 9990020930143845078587 30081"
proof -
  have l0: "pow_lb 1 1024 0"
    by (simp add: pow_lb_def)
  have l1: "pow_lb 5 1125899906842624 0"
    using pow_lb_step [OF l0, of 1125899906842624 0 5] by simp
  have l2: "pow_lb 25 1809251394333065553493 54"
    using pow_lb_step [OF l1, of 1809251394333065553493 54 5] by simp
  have l3: "pow_lb 125 1938628441591635175406 355"
    using pow_lb_step [OF l2, of 1938628441591635175406 85 5] by simp
  have l4: "pow_lb 625 2738248761316017572728 1860"
    using pow_lb_step [OF l3, of 2738248761316017572728 85 5] by simp
  have l5: "pow_lb 1250 7498006278848704575053 3741"
    using pow_lb_step [OF l4, of 7498006278848704575053 21 2] by simp
  have l6: "pow_lb 2500 5622009815765459774854 7504"
    using pow_lb_step [OF l5, of 5622009815765459774854 22 2] by simp
  have l7: "pow_lb 5000 3160699436856317896001 15030"
    using pow_lb_step [OF l6, of 3160699436856317896001 22 2] by simp
  show ?thesis
    using pow_lb_step [OF l7, of 9990020930143845078587 21 2] by simp
qed

lemma pow_ub_less:
  assumes "pow_ub n m e" and "m < 10 ^ k"
  shows "(1024::nat) ^ n < 10 ^ (k + e)"
proof -
  have "m * 10 ^ e < 10 ^ k * (10::nat) ^ e"
    using assms(2) by (rule mult_strict_right_mono) (rule zero_less_power, simp)
  with assms(1) show ?thesis
    unfolding pow_ub_def by (simp only: power_add)
qed

lemma pow_lb_less:
  assumes "pow_lb n m e" and "10 ^ k < m"
  shows "10 ^ (k + e) < (1024::nat) ^ n"
proof -
  have "10 ^ k * (10::nat) ^ e < m * 10 ^ e"
    using assms(2) by (rule mult_strict_right_mono) (rule zero_less_power, simp)
  with assms(1) show ?thesis
    unfolding pow_lb_def by (simp only: power_add)
qed

lemma nat_INT_UPPER_LIMIT: "nat INT_UPPER_LIMIT = 1024 ^ 10000"
proof -
  have a: "(1024::nat) = 2 ^ 10" by simp
  have b: "(10::nat) * 10000 = 100000" by simp
  have c: "nat ((2::int) ^ n) = 2 ^ n" for n
    by (simp add: nat_power_eq)
  have "(1024::nat) ^ 10000 = 2 ^ (10 * 10000)"
    unfolding a by (rule power_mult [symmetric])
  then show ?thesis
    unfolding INT_UPPER_LIMIT_def c b by (rule sym)
qed

lemma INT_UPPER_LIMIT_upper: "nat INT_UPPER_LIMIT < 10 ^ 30103"
proof -
  have e: "(22::nat) + 30081 = 30103" by simp
  have "(9990020930143845081186::nat) < 10 ^ 22" by simp
  from pow_ub_less [OF pow_ub_10000 this] show ?thesis
    unfolding nat_INT_UPPER_LIMIT e .
qed

lemma INT_UPPER_LIMIT_lower: "10 ^ 30102 < nat INT_UPPER_LIMIT"
proof -
  have e: "(21::nat) + 30081 = 30102" by simp
  have "(10::nat) ^ 21 < 9990020930143845078587" by simp
  from pow_lb_less [OF pow_lb_10000 this] show ?thesis
    unfolding nat_INT_UPPER_LIMIT e .
qed

lemma clog10_le: "n \<le> 10 ^ k \<Longrightarrow> clog10 n \<le> k"
proof (induction k arbitrary: n)
  case 0
  then show ?case by (simp add: clog10.simps)
next
  case (Suc k)
  show ?case
  proof (cases "n \<le> 1")
    case True
    then show ?thesis by (simp add: clog10.simps)
  next
    case False
    from Suc.prems have "(n + 9) div 10 \<le> 10 ^ k" by simp
    then have "clog10 ((n + 9) div 10) \<le> k" by (rule Suc.IH)
    with False show ?thesis by (subst clog10.simps) simp
  qed
qed

lemma clog10_gt: "10 ^ k < n \<Longrightarrow> k < clog10 n"
proof (induction k arbitrary: n)
  case 0
  then show ?case by (subst clog10.simps) simp
next
  case (Suc k)
  then have "10 ^ k < (n + 9) div 10" by simp
  then have "k < clog10 ((n + 9) div 10)" by (rule Suc.IH)
  moreover have "0 < (10::nat) ^ k" by simp
  with Suc.prems have "\<not> n \<le> 1" unfolding power_Suc by linarith
  ultimately show ?case by (subst clog10.simps) simp
qed

lemma length_digits10_le: "n < 10 ^ Suc k \<Longrightarrow> length (digits10 n) \<le> Suc k"
proof (induction k arbitrary: n)
  case 0
  then show ?case by (subst digits10.simps) simp
next
  case (Suc k)
  show ?case
  proof (cases "n < 10")
    case True
    then show ?thesis by (subst digits10.simps) simp
  next
    case False
    from Suc.prems have "n div 10 < 10 ^ Suc k" by simp
    then have "length (digits10 (n div 10)) \<le> Suc k" by (rule Suc.IH)
    with False show ?thesis by (subst digits10.simps) simp
  qed
qed

lemma length_digits10_ge: "10 ^ k \<le> n \<Longrightarrow> Suc k \<le> length (digits10 n)"
proof (induction k arbitrary: n)
  case 0
  then show ?case by (subst digits10.simps) simp
next
  case (Suc k)
  then have "10 ^ k \<le> n div 10" by simp
  then have "Suc k \<le> length (digits10 (n div 10))" by (rule Suc.IH)
  moreover have "0 < (10::nat) ^ k" by simp
  with Suc.prems have "\<not> n < 10" unfolding power_Suc by linarith
  ultimately show ?case by (subst digits10.simps) simp
qed

lemma Suc_30102: "Suc 30102 = 30103"
  by simp

lemma INT_UPPER_LIMIT_pos: "0 < INT_UPPER_LIMIT"
  unfolding INT_UPPER_LIMIT_def by (rule zero_less_power) simp

lemma INT_UPPER_LIMIT_ge: "2 ^ 2040 \<le> INT_UPPER_LIMIT"
  unfolding INT_UPPER_LIMIT_def by (rule power_increasing) simp_all

lemma clog10_INT_UPPER_LIMIT: "clog10 (nat INT_UPPER_LIMIT) = 30103"
proof -
  have "clog10 (nat INT_UPPER_LIMIT) \<le> 30103"
    by (rule clog10_le) (rule less_imp_le, rule INT_UPPER_LIMIT_upper)
  moreover have "30102 < clog10 (nat INT_UPPER_LIMIT)"
    by (rule clog10_gt) (rule INT_UPPER_LIMIT_lower)
  ultimately show ?thesis
    by linarith
qed

lemma length_digits10_INT_UPPER_LIMIT: "length (digits10 (nat INT_UPPER_LIMIT)) = 30103"
proof -
  have "length (digits10 (nat INT_UPPER_LIMIT)) \<le> Suc 30102"
    by (rule length_digits10_le) (simp only: Suc_30102 INT_UPPER_LIMIT_upper)
  moreover have "Suc 30102 \<le> length (digits10 (nat INT_UPPER_LIMIT))"
    by (rule length_digits10_ge) (rule less_imp_le, rule INT_UPPER_LIMIT_lower)
  ultimately show ?thesis
    by linarith
qed

lemma length_digits10_bounded:
  assumes "\<bar>n\<bar> \<le> INT_UPPER_LIMIT"
  shows "length (digits10 (nat \<bar>n\<bar>)) \<le> 30103"
proof -
  from assms have "nat \<bar>n\<bar> \<le> nat INT_UPPER_LIMIT"
    by (rule nat_mono)
  then have "nat \<bar>n\<bar> < 10 ^ Suc 30102"
    unfolding Suc_30102 using INT_UPPER_LIMIT_upper by (rule le_less_trans)
  then have "length (digits10 (nat \<bar>n\<bar>)) \<le> Suc 30102"
    by (rule length_digits10_le)
  then show ?thesis
    by linarith
qed

subsection \<open>Rules for runs that return\<close>

lemma validI:
  "(\<And>s. I s \<Longrightarrow> \<exists>x s'. m s = (Inr x, s') \<and> I s' \<and> Q x) \<Longrightarrow> valid I m Q"
  by (simp add: valid_def)

lemma validD:
  "valid I m Q \<Longrightarrow> I s \<Longrightarrow> \<exists>x s'. m s = (Inr x, s') \<and> I s' \<and> Q x"
  by (simp add: valid_def)

lemma valid_weaken: "valid I m P \<Longrightarrow> (\<And>x. P x \<Longrightarrow> Q x) \<Longrightarrow> valid I m Q"
  unfolding valid_def by blast

lemma valid_pret: "valid I (pret x) (\<lambda>y. y = x)"
  by (simp add: valid_def pret_def)

lemma valid_pbind:
  assumes "valid I m P" and "\<And>x. P x \<Longrightarrow> valid I (f x) (Q x)"
  shows "valid I (pbind m f) (\<lambda>y. \<exists>x. P x \<and> Q x y)"
proof (rule validI)
  fix s assume "I s"
  from validD [OF assms(1) this] obtain x s1 where m: "m s = (Inr x, s1)" "I s1" "P x"
    by blast
  from validD [OF assms(2) [OF m(3)] m(2)] obtain y s2
    where f: "f x s1 = (Inr y, s2)" "I s2" "Q x y"
    by blast
  from m f show "\<exists>y s'. pbind m f s = (Inr y, s') \<and> I s' \<and> (\<exists>x. P x \<and> Q x y)"
    by (auto simp: pbind_def)
qed

lemma valid_pmap:
  assumes "valid I m P"
  shows "valid I (pmap f m) (\<lambda>y. \<exists>x. P x \<and> y = f x)"
  unfolding pmap_def by (rule valid_pbind [OF assms]) (rule valid_pret)

lemma valid_listcomp:
  assumes "valid I g P"
  shows "valid I (listcomp n g) (\<lambda>xs. length xs = n \<and> list_all P xs)"
proof (induction n)
  case 0
  show ?case
    unfolding listcomp.simps by (rule valid_weaken [OF valid_pret]) simp
next
  case (Suc n)
  have "valid I (listcomp (Suc n) g)
          (\<lambda>ys. \<exists>x. P x \<and> (\<exists>xs. (length xs = n \<and> list_all P xs) \<and> ys = x # xs))"
    unfolding listcomp.simps
    by (rule valid_pbind [OF assms]) (rule valid_pbind [OF Suc.IH], rule valid_pret)
  then show ?case
    by (rule valid_weaken) auto
qed

lemma valid_formap:
  assumes "\<And>x. x \<in> set xs \<Longrightarrow> valid I (f x) (P x)"
  shows "valid I (formap f xs) (\<lambda>ys. list_all2 P xs ys)"
  using assms
proof (induction xs)
  case Nil
  show ?case
    unfolding formap.simps by (rule valid_weaken [OF valid_pret]) simp
next
  case (Cons x xs)
  have hd: "valid I (f x) (P x)"
    by (rule Cons.prems) simp
  have tl: "valid I (formap f xs) (\<lambda>ys. list_all2 P xs ys)"
    by (rule Cons.IH) (rule Cons.prems, simp)
  have "valid I (formap f (x # xs))
          (\<lambda>zs. \<exists>y. P x y \<and> (\<exists>ys. list_all2 P xs ys \<and> zs = y # ys))"
    unfolding formap.simps
    by (rule valid_pbind [OF hd]) (rule valid_pbind [OF tl], rule valid_pret)
  then show ?case
    by (rule valid_weaken) auto
qed

lemma valid_randbelow:
  "valid (rt_inv A L out) (randbelow n) (\<lambda>x. \<exists>r\<in>A. x = int (r mod nat n))"
  by (rule validI) (auto simp: randbelow_def rt_inv_def)

lemma valid_randint:
  assumes "a \<le> b"
  shows "valid (rt_inv A L out) (randint a b) (drawn A a b)"
proof -
  from assms have w: "b + 1 - a > 0" by simp
  have "valid (rt_inv A L out) (pmap (\<lambda>r. a + r) (randbelow (b + 1 - a)))
          (\<lambda>y. \<exists>x. (\<exists>r\<in>A. x = int (r mod nat (b + 1 - a))) \<and> y = a + x)"
    by (rule valid_pmap [OF valid_randbelow])
  then show ?thesis
    unfolding randint_def Let_def using w
    by (simp only: if_True) (erule valid_weaken, auto simp: drawn_def)
qed

lemma drawn_range:
  assumes "a \<le> b" and "drawn A a b n"
  shows "a \<le> n \<and> n \<le> b"
proof -
  from assms(2) obtain r where n: "n = a + int (r mod nat (b + 1 - a))"
    unfolding drawn_def by blast
  from assms(1) have "0 < nat (b + 1 - a)" by simp
  then have "r mod nat (b + 1 - a) < nat (b + 1 - a)" by (rule mod_less_divisor)
  then have "int (r mod nat (b + 1 - a)) < b + 1 - a" by linarith
  with n show ?thesis by simp
qed

lemma drawn_const: "drawn {c} a b n \<longleftrightarrow> n = a + int (c mod nat (b + 1 - a))"
  by (simp add: drawn_def)

lemma valid_choice1:
  assumes "xs \<noteq> []"
  shows "valid (rt_inv A L out) (choice1 xs) (picked A xs)"
proof -
  have "valid (rt_inv A L out) (pmap (\<lambda>i. xs ! nat i) (randbelow (int (length xs))))
          (\<lambda>y. \<exists>x. (\<exists>r\<in>A. x = int (r mod nat (int (length xs)))) \<and> y = xs ! nat x)"
    by (rule valid_pmap [OF valid_randbelow])
  then show ?thesis
    unfolding choice1_def using assms
    by (simp only: if_False) (erule valid_weaken, auto simp: picked_def)
qed

lemma picked_mem: "xs \<noteq> [] \<Longrightarrow> picked A xs x \<Longrightarrow> x \<in> set xs"
  by (auto simp: picked_def)

lemma valid_choices:
  assumes "xs \<noteq> []"
  shows "valid (rt_inv A L out) (choices xs k) (\<lambda>ys. length ys = k \<and> list_all (picked A xs) ys)"
  unfolding choices_def by (rule valid_listcomp [OF valid_choice1 [OF assms]])

lemma valid_chr:
  assumes "0 \<le> i" and "i < 0x110000"
  shows "valid I (chr i) (\<lambda>t. t = [nat i])"
  unfolding chr_def using assms by (simp only: simp_thms if_True) (rule valid_pret)

lemma valid_int_to_str:
  assumes "L = 0 \<or> length (digits10 (nat \<bar>n\<bar>)) \<le> L"
  shows "valid (rt_inv A L out) (int_to_str n)
           (\<lambda>t. t = str_of_int n)"
  using assms by (intro validI) (auto simp: int_to_str_def rt_inv_def)

lemma valid_py_float:
  assumes "\<bar>n\<bar> < 2 ^ 1024 - 2 ^ 970"
  shows "valid I (py_float n) (\<lambda>x. x = n)"
  unfolding py_float_def using assms by (simp only: if_True) (rule valid_pret)

subsection \<open>Dictionaries and the display\<close>

lemma dict_set_fresh: "k \<notin> set (map fst d) \<Longrightarrow> dict_set d k v = d @ [(k, v)]"
  by (induction d) auto

lemma valid_sp: "valid I e Q \<Longrightarrow> valid I e (\<lambda>v. sp I e v \<and> Q v)"
  unfolding valid_def sp_def by blast

lemma sp_post: "sp I e v \<Longrightarrow> valid I e P \<Longrightarrow> P v"
  unfolding valid_def sp_def by fastforce

lemma valid_dict_display:
  assumes "\<And>k e. (k, e) \<in> set items \<Longrightarrow> valid I e Q"
    and "distinct (map fst items)"
    and "set (map fst items) \<inter> set (map fst d0) = {}"
  shows "valid I (dict_display items d0) (\<lambda>d. \<exists>new. d = d0 @ new \<and> built I Q items new)"
  using assms
proof (induction items arbitrary: d0)
  case Nil
  show ?case
    unfolding dict_display.simps
    by (rule valid_weaken [OF valid_pret]) (simp add: built_def)
next
  case (Cons item items)
  obtain k e where item: "item = (k, e)" by (cases item)
  have "(k, e) \<in> set (item # items)"
    by (simp add: item)
  then have "valid I e Q"
    by (rule Cons.prems(1))
  then have e: "valid I e (\<lambda>v. sp I e v \<and> Q v)"
    by (rule valid_sp)
  from Cons.prems(3) have fresh: "k \<notin> set (map fst d0)"
    by (auto simp: item)
  have rest: "valid I (dict_display items (dict_set d0 k v))
                (\<lambda>d. \<exists>new. d = dict_set d0 k v @ new \<and> built I Q items new)" for v
  proof (rule Cons.IH)
    show "valid I e' Q" if "(k', e') \<in> set items" for k' e'
      using Cons.prems(1) [of k' e'] that by simp
    show "distinct (map fst items)"
      using Cons.prems(2) by simp
    show "set (map fst items) \<inter> set (map fst (dict_set d0 k v)) = {}"
      using Cons.prems(2,3) fresh by (auto simp: item dict_set_fresh)
  qed
  have "valid I (dict_display (item # items) d0)
          (\<lambda>d. \<exists>v. (sp I e v \<and> Q v) \<and>
                (\<exists>new. d = dict_set d0 k v @ new \<and> built I Q items new))"
    unfolding item dict_display.simps
    by (rule valid_pbind [OF e]) (rule rest)
  then show ?case
  proof (rule valid_weaken)
    fix d
    assume "\<exists>v. (sp I e v \<and> Q v) \<and>
                (\<exists>new. d = dict_set d0 k v @ new \<and> built I Q items new)"
    then obtain v new where v: "sp I e v" "Q v"
      and d: "d = dict_set d0 k v @ new" and new: "built I Q items new"
      by blast
    from d fresh have "d = d0 @ (k, v) # new"
      by (simp add: dict_set_fresh)
    moreover from v new have "built I Q (item # items) ((k, v) # new)"
      by (simp add: built_def item)
    ultimately show "\<exists>new. d = d0 @ new \<and> built I Q (item # items) new"
      by blast
  qed
qed

lemma built_keys: "built I Q items d \<Longrightarrow> map fst d = map fst items"
  unfolding built_def by (induction rule: list_all2_induct) auto

lemma built_all: "built I Q items d \<Longrightarrow> list_all Q (map snd d)"
  unfolding built_def by (induction rule: list_all2_induct) auto

lemma built_map_of:
  "built I Q items d \<Longrightarrow> map_of items k = Some e \<Longrightarrow> \<exists>v. map_of d k = Some v \<and> sp I e v"
  unfolding built_def
proof (induction rule: list_all2_induct)
  case Nil
  then show ?case by simp
next
  case (Cons item items kv d)
  then show ?case
    by (cases item; cases kv) (auto split: if_splits)
qed

lemma formap_dict_get:
  assumes "set ks \<subseteq> set (map fst d)"
  shows "formap (dict_get d) ks s = (Inr (map (\<lambda>k. the (map_of d k)) ks), s)"
  using assms
proof (induction ks)
  case Nil
  show ?case by (simp add: pret_def)
next
  case (Cons k ks)
  then have "k \<in> fst ` set d" by simp
  then obtain v where v: "map_of d k = Some v"
    by (metis domD dom_map_of_conv_image_fst)
  with Cons show ?case
    by (simp add: pbind_def pret_def dict_get_def)
qed

lemma map_the_map_of: "distinct (map fst d) \<Longrightarrow> map (\<lambda>k. the (map_of d k)) (map fst d) = map snd d"
proof (induction d)
  case Nil
  show ?case by simp
next
  case (Cons kv d)
  obtain k v where kv: "kv = (k, v)" by (cases kv)
  from Cons.prems have k: "k \<notin> fst ` set d" and dd: "distinct (map fst d)"
    by (auto simp: kv)
  have "map (\<lambda>x. the (map_of (kv # d) x)) (map fst d) = map (\<lambda>x. the (map_of d x)) (map fst d)"
    using k by (auto simp: kv)
  with Cons.IH [OF dd] show ?case
    by (simp add: kv)
qed

lemma add_multi_type_array_3_run:
  assumes "distinct (keys d)" and "''multi-type array 3'' \<notin> set (keys d)"
  shows "add_multi_type_array_3 d s =
           (Inr (d @ [(''multi-type array 3'', PList (map snd d @ [PList (map snd d)]))]), s)"
proof -
  have "formap (dict_get d) (keys d) s = (Inr (map snd d), s)"
    using formap_dict_get [of "keys d" d s] map_the_map_of [of d] assms(1)
    by (simp add: keys_def)
  with assms(2) show ?thesis
    by (simp add: add_multi_type_array_3_def pbind_def pret_def dict_set_fresh keys_def)
qed

subsection \<open>Configuration, strings, decimals and floats\<close>

lemma configure_run:
  "configure s = (Inr (), s\<lparr>int_max_str_digits := 60207\<rparr>)"
proof -
  have "ceil_log10 INT_UPPER_LIMIT = Inr 30103"
    using INT_UPPER_LIMIT_pos by (simp add: ceil_log10_def clog10_INT_UPPER_LIMIT)
  then show ?thesis
    by (simp add: configure_def set_int_max_str_digits_def)
qed

lemma strs_ok_simps:
  "strs_ok PNone" "strs_ok (PBool b)" "strs_ok (PInt n)" "strs_ok (PDecimal t)"
  "strs_ok (PFloat x)"
  "strs_ok (PStr t) \<longleftrightarrow> list_all non_surrogate t"
  "strs_ok (PList xs) \<longleftrightarrow> list_all strs_ok xs"
  by (simp_all add: strs_ok_def list_all_iff)

lemma non_surrogate_of_char: "non_surrogate (of_char c)"
proof -
  have "of_char c < (256::nat)"
    by (rule nat_of_char_less_256)
  then show ?thesis
    unfolding non_surrogate_def by linarith
qed

lemma strs_ok_PDict:
  "strs_ok (PDict kvs) \<longleftrightarrow> list_all strs_ok (map snd kvs)"
  by (auto simp: strs_ok_def list_all_iff non_surrogate_of_char)

lemma VALID_UTF8_CHARS_set:
  "set VALID_UTF8_CHARS = {0..<0xD800} \<union> {0xE000..<0x110000}"
  unfolding VALID_UTF8_CHARS_def py_range_def set_append set_upto by auto

lemma VALID_UTF8_CHARS_nonempty: "VALID_UTF8_CHARS \<noteq> []"
proof -
  have "0 \<in> set VALID_UTF8_CHARS"
    unfolding VALID_UTF8_CHARS_set by simp
  then show ?thesis by auto
qed

lemma concat_singletons: "concat (map (\<lambda>x. [f x]) xs) = map f xs"
  by (induction xs) simp_all

lemma list_all2_eq_map: "list_all2 (\<lambda>x y. y = f x) xs ys \<longleftrightarrow> ys = map f xs"
proof
  assume "list_all2 (\<lambda>x y. y = f x) xs ys"
  then show "ys = map f xs"
    by (induction rule: list_all2_induct) simp_all
next
  assume "ys = map f xs"
  then show "list_all2 (\<lambda>x y. y = f x) xs ys"
    by (simp add: list_all2_conv_all_nth)
qed

lemma valid_utf8_string:
  "valid (rt_inv A L out) (utf8_string k)
     (\<lambda>t. \<exists>xs. length xs = k \<and> list_all (picked A VALID_UTF8_CHARS) xs \<and> t = map nat xs)"
proof -
  let ?I = "rt_inv A L out"
  have chars: "valid ?I (formap chr xs) (\<lambda>ys. list_all2 (\<lambda>x t. t = [nat x]) xs ys)"
    if "list_all (picked A VALID_UTF8_CHARS) xs" for xs
  proof (rule valid_formap)
    fix x assume "x \<in> set xs"
    with that have "picked A VALID_UTF8_CHARS x"
      by (simp add: list_all_iff)
    then have "x \<in> set VALID_UTF8_CHARS"
      by (rule picked_mem [OF VALID_UTF8_CHARS_nonempty])
    then have "0 \<le> x" "x < 0x110000"
      unfolding VALID_UTF8_CHARS_set by auto
    then show "valid ?I (chr x) (\<lambda>t. t = [nat x])"
      by (rule valid_chr)
  qed
  have "valid ?I (utf8_string k)
          (\<lambda>t. \<exists>xs. (length xs = k \<and> list_all (picked A VALID_UTF8_CHARS) xs) \<and>
                (\<exists>ys. list_all2 (\<lambda>x t. t = [nat x]) xs ys \<and> t = join ys))"
    unfolding utf8_string_def
    by (rule valid_pbind [OF valid_choices [OF VALID_UTF8_CHARS_nonempty]])
       (rule valid_pmap, rule chars, simp)
  then show ?thesis
  proof (rule valid_weaken)
    fix t
    assume "\<exists>xs. (length xs = k \<and> list_all (picked A VALID_UTF8_CHARS) xs) \<and>
                (\<exists>ys. list_all2 (\<lambda>x t. t = [nat x]) xs ys \<and> t = join ys)"
    then obtain xs ys where xs: "length xs = k" "list_all (picked A VALID_UTF8_CHARS) xs"
      and ys: "list_all2 (\<lambda>x t. t = [nat x]) xs ys" and t: "t = join ys"
      by blast
    from ys have "ys = map (\<lambda>x. [nat x]) xs"
      by (simp only: list_all2_eq_map)
    with t have "t = map nat xs"
      by (simp add: join_def concat_singletons)
    with xs show "\<exists>xs. length xs = k \<and> list_all (picked A VALID_UTF8_CHARS) xs \<and> t = map nat xs"
      by blast
  qed
qed

lemma picked_VALID_non_surrogate:
  assumes "picked A VALID_UTF8_CHARS x"
  shows "non_surrogate (nat x)"
proof -
  from assms have "x \<in> set VALID_UTF8_CHARS"
    by (rule picked_mem [OF VALID_UTF8_CHARS_nonempty])
  then show ?thesis
    unfolding VALID_UTF8_CHARS_set non_surrogate_def by auto
qed

lemma concat_singletons_all:
  "list_all (\<lambda>t. \<exists>c. R c \<and> t = [c]) cs \<Longrightarrow>
     length (concat cs) = length cs \<and> list_all R (concat cs)"
  by (induction cs) auto

lemma valid_ascii_string:
  "valid (rt_inv A L out) (listcomp k (pbind (randint 0 127) chr))
     (\<lambda>cs. length (join cs) = k \<and>
            list_all (\<lambda>c. \<exists>n. drawn A 0 127 n \<and> c = nat n) (join cs))"
proof -
  let ?I = "rt_inv A L out"
  let ?R = "\<lambda>c. \<exists>n. drawn A 0 127 n \<and> c = nat n"
  have "valid ?I (pbind (randint 0 127) chr) (\<lambda>t. \<exists>n. drawn A 0 127 n \<and> t = [nat n])"
  proof (rule valid_pbind [OF valid_randint])
    show "(0::int) \<le> 127" by simp
    fix n assume "drawn A 0 127 n"
    then have "0 \<le> n \<and> n \<le> 127"
      by (rule drawn_range [rotated]) simp
    then have "0 \<le> n" "n < 0x110000" by simp_all
    then show "valid ?I (chr n) (\<lambda>t. t = [nat n])"
      by (rule valid_chr)
  qed
  then have one: "valid ?I (pbind (randint 0 127) chr) (\<lambda>t. \<exists>c. ?R c \<and> t = [c])"
    by (rule valid_weaken) blast
  show ?thesis
  proof (rule valid_weaken [OF valid_listcomp [OF one]])
    fix cs
    assume "length cs = k \<and> list_all (\<lambda>t. \<exists>c. ?R c \<and> t = [c]) cs"
    with concat_singletons_all [of ?R cs]
    show "length (join cs) = k \<and> list_all ?R (join cs)"
      by (simp add: join_def)
  qed
qed

lemma valid_decimal_fstring:
  assumes L: "L = 0 \<or> 30103 \<le> L"
    and ab: "a \<le> b" "- INT_UPPER_LIMIT \<le> a" "b \<le> INT_UPPER_LIMIT"
    and cd: "c \<le> d" "- INT_UPPER_LIMIT \<le> c" "d \<le> INT_UPPER_LIMIT"
  shows "valid (rt_inv A L out) (decimal_fstring p (randint a b) (randint c d))
           (\<lambda>v. \<exists>x y. drawn A a b x \<and> drawn A c d y \<and>
                  v = PDecimal (p @ str_of_int x @ [46] @ str_of_int y))"
proof -
  let ?I = "rt_inv A L out"
  have conv: "valid ?I (int_to_str n) (\<lambda>t. t = str_of_int n)"
    if "- INT_UPPER_LIMIT \<le> n" "n \<le> INT_UPPER_LIMIT" for n
  proof (rule valid_int_to_str)
    from that have "\<bar>n\<bar> \<le> INT_UPPER_LIMIT" by simp
    then have "length (digits10 (nat \<bar>n\<bar>)) \<le> 30103"
      by (rule length_digits10_bounded)
    with L show "L = 0 \<or> length (digits10 (nat \<bar>n\<bar>)) \<le> L" by auto
  qed
  have conv_ab: "valid ?I (int_to_str x) (\<lambda>t. t = str_of_int x)" if "drawn A a b x" for x
    using drawn_range [OF ab(1) that] ab(2,3) by (intro conv) simp_all
  have conv_cd: "valid ?I (int_to_str y) (\<lambda>t. t = str_of_int y)" if "drawn A c d y" for y
    using drawn_range [OF cd(1) that] cd(2,3) by (intro conv) simp_all
  have "valid ?I (decimal_fstring p (randint a b) (randint c d))
          (\<lambda>v. \<exists>x. drawn A a b x \<and> (\<exists>ta. ta = str_of_int x \<and>
                (\<exists>y. drawn A c d y \<and> (\<exists>tb. tb = str_of_int y \<and>
                   v = PDecimal (p @ ta @ [46] @ tb)))))"
    unfolding decimal_fstring_def
    by (rule valid_pbind [OF valid_randint [OF ab(1)]],
        rule valid_pbind [OF conv_ab], assumption,
        rule valid_pbind [OF valid_randint [OF cd(1)]],
        rule valid_pbind [OF conv_cd], assumption,
        rule valid_pret)
  then show ?thesis
    by (rule valid_weaken) blast
qed

lemma valid_float:
  assumes "a \<le> b" and "- (2 ^ 1024 - 2 ^ 970) < a" and "b < 2 ^ 1024 - 2 ^ 970"
  shows "valid (rt_inv A L out) (pbind (randint a b) py_float) (drawn A a b)"
proof -
  have "valid (rt_inv A L out) (pbind (randint a b) py_float)
          (\<lambda>y. \<exists>x. drawn A a b x \<and> y = x)"
  proof (rule valid_pbind [OF valid_randint [OF assms(1)]])
    fix x assume "drawn A a b x"
    from drawn_range [OF assms(1) this] assms(2,3)
    have "\<bar>x\<bar> < 2 ^ 1024 - 2 ^ 970" by linarith
    then show "valid (rt_inv A L out) (py_float x) (\<lambda>y. y = x)"
      by (rule valid_py_float)
  qed
  then show ?thesis
    by (rule valid_weaken) blast
qed

subsection \<open>Every entry of the display returns, with valid strings\<close>

lemma ok_pret [entry_ok]: "strs_ok v \<Longrightarrow> valid I (pret v) strs_ok"
  by (rule valid_weaken [OF valid_pret]) simp

lemma ok_int [entry_ok]:
  "a \<le> b \<Longrightarrow> valid (rt_inv A L out) (pmap PInt (randint a b)) strs_ok"
  by (rule valid_weaken [OF valid_pmap [OF valid_randint]]) (auto simp: strs_ok_simps)

lemma ok_neg_int [entry_ok]:
  "a \<le> b \<Longrightarrow> valid (rt_inv A L out) (pmap (\<lambda>n. PInt (- n)) (randint a b)) strs_ok"
  by (rule valid_weaken [OF valid_pmap [OF valid_randint]]) (auto simp: strs_ok_simps)

lemma ok_list [entry_ok]:
  "valid I g strs_ok \<Longrightarrow> valid I (pmap PList (listcomp n g)) strs_ok"
  by (rule valid_weaken [OF valid_pmap [OF valid_listcomp]]) (auto simp: strs_ok_simps)

lemma ok_ascii [entry_ok]:
  "valid (rt_inv A L out)
     (pmap (\<lambda>cs. PStr (join cs)) (listcomp k (pbind (randint 0 127) chr))) strs_ok"
proof (rule valid_weaken [OF valid_pmap [OF valid_ascii_string]])
  fix v
  assume "\<exists>cs. (length (join cs) = k \<and>
             list_all (\<lambda>c. \<exists>n. drawn A 0 127 n \<and> c = nat n) (join cs)) \<and> v = PStr (join cs)"
  then obtain cs where cs: "list_all (\<lambda>c. \<exists>n. drawn A 0 127 n \<and> c = nat n) (join cs)"
    and v: "v = PStr (join cs)"
    by blast
  have "non_surrogate c" if "\<exists>n. drawn A 0 127 n \<and> c = nat n" for c
  proof -
    from that obtain n where n: "drawn A 0 127 n" "c = nat n" by blast
    have "0 \<le> n \<and> n \<le> 127"
      by (rule drawn_range [OF _ n(1)]) simp
    with n(2) have "c < 128"
      by linarith
    then show ?thesis
      unfolding non_surrogate_def by linarith
  qed
  with cs have "list_all non_surrogate (join cs)"
    by (simp add: list_all_iff)
  with v show "strs_ok v"
    by (simp add: strs_ok_simps)
qed

lemma utf8_string_ok:
  "valid (rt_inv A L out) (utf8_string k) (list_all non_surrogate)"
proof (rule valid_weaken [OF valid_utf8_string])
  fix t
  assume "\<exists>xs. length xs = k \<and> list_all (picked A VALID_UTF8_CHARS) xs \<and> t = map nat xs"
  then obtain xs where xs: "list_all (picked A VALID_UTF8_CHARS) xs" and t: "t = map nat xs"
    by blast
  have "non_surrogate (nat x)" if "x \<in> set xs" for x
    using xs that by (intro picked_VALID_non_surrogate [of A]) (simp add: list_all_iff)
  with t show "list_all non_surrogate t"
    by (simp add: list_all_iff)
qed

lemma ok_utf8 [entry_ok]:
  "valid (rt_inv A L out) (pmap PStr (utf8_string k)) strs_ok"
  by (rule valid_weaken [OF valid_pmap [OF utf8_string_ok]]) (auto simp: strs_ok_simps)

lemma ok_utf8_list [entry_ok]:
  "valid (rt_inv A L out)
     (pmap (\<lambda>ts. PList (map PStr ts)) (listcomp n (utf8_string k))) strs_ok"
  by (rule valid_weaken [OF valid_pmap [OF valid_listcomp [OF utf8_string_ok]]])
     (auto simp: strs_ok_simps list_all_iff)

lemma ok_decimal [entry_ok]:
  assumes "L = 0 \<or> 30103 \<le> L"
    and "a \<le> b" "- INT_UPPER_LIMIT \<le> a" "b \<le> INT_UPPER_LIMIT"
    and "c \<le> d" "- INT_UPPER_LIMIT \<le> c" "d \<le> INT_UPPER_LIMIT"
  shows "valid (rt_inv A L out) (decimal_fstring p (randint a b) (randint c d)) strs_ok"
  by (rule valid_weaken [OF valid_decimal_fstring [OF assms]]) (auto simp: strs_ok_simps)

lemma ok_float [entry_ok]:
  assumes "a \<le> b" and "- (2 ^ 1024 - 2 ^ 970) < a" and "b < 2 ^ 1024 - 2 ^ 970"
  shows "valid (rt_inv A L out) (pmap PFloat (pbind (randint a b) py_float)) strs_ok"
  by (rule valid_weaken [OF valid_pmap [OF valid_float [OF assms]]]) (auto simp: strs_ok_simps)

lemma ok_neg_float [entry_ok]:
  assumes "a \<le> b" and "- (2 ^ 1024 - 2 ^ 970) < a" and "b < 2 ^ 1024 - 2 ^ 970"
  shows "valid (rt_inv A L out) (pmap (\<lambda>x. PFloat (- x)) (pbind (randint a b) py_float)) strs_ok"
  by (rule valid_weaken [OF valid_pmap [OF valid_float [OF assms]]]) (auto simp: strs_ok_simps)

lemma ok_bools [entry_ok]:
  "valid (rt_inv A L out) (pmap (\<lambda>bs. PList (map PBool bs)) (choices [True, False] k)) strs_ok"
  by (rule valid_weaken [OF valid_pmap [OF valid_choices]])
     (auto simp: strs_ok_simps list_all_iff)

lemma INT_UPPER_LIMIT_facts:
  "0 \<le> INT_UPPER_LIMIT" "- INT_UPPER_LIMIT \<le> 0" "- INT_UPPER_LIMIT \<le> INT_UPPER_LIMIT"
  "- INT_UPPER_LIMIT \<le> 2 ^ 2040"
  using INT_UPPER_LIMIT_pos by simp_all

lemma list_all_replicate: "P x \<Longrightarrow> list_all P (replicate n x)"
  by (simp add: list_all_iff)

lemma test_object_display_all:
  assumes "L = 0 \<or> 30103 \<le> L"
  shows "list_all (\<lambda>item. valid (rt_inv A L out) (snd item) strs_ok) test_object_display"
  unfolding test_object_display_def list_all_Cons_iff list_all_Nil_iff snd_conv
  by (intro conjI TrueI;
      (rule entry_ok INT_UPPER_LIMIT_facts INT_UPPER_LIMIT_ge assms list_all_replicate
       | simp add: strs_ok_simps strs_ok_PDict non_surrogate_def)+)

subsection \<open>The run of the corpus\<close>

lemma test_object_display_keys:
  "distinct (map fst test_object_display)"
  "''multi-type array 3'' \<notin> set (map fst test_object_display)"
  "''object 4'' \<notin> set (map fst test_object_display)"
  unfolding test_object_display_def list.map fst_conv by simp_all

lemma inv_configure:
  assumes "\<forall>i. rng s i \<in> A"
  shows "rt_inv A 60207 (stdout s) (s\<lparr>int_max_str_digits := 60207\<rparr>)"
  using assms by (simp add: rt_inv_def)

lemma corpus_run:
  assumes "\<forall>i. rng s i \<in> A"
  obtains d0 s' where
    "corpus s = (Inr (d0 @ [(''multi-type array 3'',
                   PList (map snd d0 @ [PList (map snd d0)]))]), s')"
    and "built (rt_inv A 60207 (stdout s)) strs_ok test_object_display d0"
    and "rt_inv A 60207 (stdout s) s'"
proof -
  let ?I = "rt_inv A 60207 (stdout s)"
  let ?s1 = "s\<lparr>int_max_str_digits := 60207\<rparr>"
  have "valid ?I (dict_display test_object_display [])
          (\<lambda>d. \<exists>new. d = [] @ new \<and> built ?I strs_ok test_object_display new)"
  proof (rule valid_dict_display)
    fix k e assume "(k, e) \<in> set test_object_display"
    with test_object_display_all [of 60207 A "stdout s"]
    show "valid ?I e strs_ok"
      by (auto simp: list_all_iff)
  qed (simp_all add: test_object_display_keys)
  from validD [OF this inv_configure [OF assms]] obtain d0 s'
    where run: "dict_display test_object_display [] ?s1 = (Inr d0, s')"
      and inv': "?I s'" and d0: "built ?I strs_ok test_object_display d0"
    by auto
  from built_keys [OF d0] have k: "keys d0 = map fst test_object_display"
    by (simp add: keys_def)
  have "add_multi_type_array_3 d0 s' =
          (Inr (d0 @ [(''multi-type array 3'', PList (map snd d0 @ [PList (map snd d0)]))]), s')"
    unfolding k [symmetric] keys_def [symmetric]
    using test_object_display_keys(1,2) unfolding k [symmetric]
    by (intro add_multi_type_array_3_run)
  with run have "corpus s = (Inr (d0 @ [(''multi-type array 3'',
                   PList (map snd d0 @ [PList (map snd d0)]))]), s')"
    by (simp add: corpus_def pbind_def configure_run)
  then show thesis
    using d0 inv' by (rule that)
qed

lemma entry_display:
  assumes A: "\<forall>i. rng s i \<in> A"
    and e: "map_of test_object_display k = Some e"
    and P: "valid (rt_inv A 60207 (stdout s)) e P"
  shows "\<exists>v. entry k s = Some v \<and> P v"
proof -
  from corpus_run [OF A] obtain d0 s' where
    run: "corpus s = (Inr (d0 @ [(''multi-type array 3'',
                   PList (map snd d0 @ [PList (map snd d0)]))]), s')"
    and d0: "built (rt_inv A 60207 (stdout s)) strs_ok test_object_display d0"
    by blast
  from built_map_of [OF d0 e] obtain v where v: "map_of d0 k = Some v"
    and sp: "sp (rt_inv A 60207 (stdout s)) e v"
    by blast
  from sp P have "P v" by (rule sp_post)
  moreover from run v have "entry k s = Some v"
    by (simp add: entry_def result_def)
  ultimately show ?thesis by blast
qed

lemma rng_UNIV: "\<forall>i. rng s i \<in> UNIV"
  by simp

lemma rng_zero: "\<forall>i. rng zero_runtime i \<in> {0}"
  by (simp add: zero_runtime_def)

text \<open>
  Claim C9. Whatever the random source, the conversion limit and the output so far, the
  run builds the corpus and the value under \<open>unsigned 8-bit defined integer 2\<close> is the
  integer \<open>0\<close>: an integer value, distinct from \<open>False\<close>, \<open>None\<close> and any decimal.
\<close>

theorem unsigned_8bit_2_is_zero:
  "entry ''unsigned 8-bit defined integer 2'' s = Some (PInt 0)"
proof -
  have "map_of test_object_display ''unsigned 8-bit defined integer 2'' = Some (pret (PInt 0))"
    unfolding test_object_display_def by simp
  from entry_display [OF rng_UNIV this valid_pret] show ?thesis
    by simp
qed

subsection \<open>The expression under each key\<close>

lemma lookups:
  "map_of test_object_display ''boolean true'' =
     Some (pret (PBool True))"
  "map_of test_object_display ''boolean false'' =
     Some (pret (PBool False))"
  "map_of test_object_display ''null'' =
     Some (pret PNone)"
  "map_of test_object_display ''string 0'' =
     Some (pret (PStr []))"
  "map_of test_object_display ''string ascii'' =
     Some (pmap (\<lambda>cs. PStr (join cs)) (listcomp 100000 (pbind (randint 0 127) chr)))"
  "map_of test_object_display ''string utf-8'' =
     Some (pmap PStr (utf8_string 100000))"
  "map_of test_object_display ''resizing integer 1'' =
     Some (pmap PInt (randint 4294967296 72057594037927935))"
  "map_of test_object_display ''resizing integer 2'' =
     Some (pmap PInt (randint 18446744073709551616 (2 ^ 2040 - 1)))"
  "map_of test_object_display ''negative resizing integer 1'' =
     Some (pmap (\<lambda>n. PInt (- n)) (randint 4294967296 72057594037927935))"
  "map_of test_object_display ''negative resizing integer 2'' =
     Some (pmap (\<lambda>n. PInt (- n)) (randint 18446744073709551616 (2 ^ 2040 - 1)))"
  "map_of test_object_display ''unsigned 8-bit defined integer'' =
     Some (pmap PInt (randint 0 255))"
  "map_of test_object_display ''unsigned 8-bit defined integer 2'' =
     Some (pret (PInt 0))"
  "map_of test_object_display ''unsigned 16-bit defined integer'' =
     Some (pmap PInt (randint 256 65535))"
  "map_of test_object_display ''unsigned 24-bit defined integer'' =
     Some (pmap PInt (randint 65536 16777215))"
  "map_of test_object_display ''unsigned 32-bit defined integer'' =
     Some (pmap PInt (randint 16777216 4294967295))"
  "map_of test_object_display ''unsigned 64-bit defined integer'' =
     Some (pmap PInt (randint 72057594037927936 18446744073709551615))"
  "map_of test_object_display ''negative 8-bit defined integer'' =
     Some (pmap (\<lambda>n. PInt (- n)) (randint 0 255))"
  "map_of test_object_display ''negative 16-bit defined integer'' =
     Some (pmap (\<lambda>n. PInt (- n)) (randint 256 65535))"
  "map_of test_object_display ''negative 24-bit defined integer'' =
     Some (pmap (\<lambda>n. PInt (- n)) (randint 65536 16777215))"
  "map_of test_object_display ''negative 32-bit defined integer'' =
     Some (pmap (\<lambda>n. PInt (- n)) (randint 16777216 4294967295))"
  "map_of test_object_display ''negative 64-bit defined integer'' =
     Some (pmap (\<lambda>n. PInt (- n)) (randint 72057594037927936 18446744073709551615))"
  "map_of test_object_display ''big integer'' =
     Some (pmap PInt (randint (2 ^ 2040) INT_UPPER_LIMIT))"
  "map_of test_object_display ''negative big integer'' =
     Some (pmap (\<lambda>n. PInt (- n)) (randint (2 ^ 2040) INT_UPPER_LIMIT))"
  "map_of test_object_display ''decimal 1'' =
     Some (decimal_fstring [] (randint 0 INT_UPPER_LIMIT) (randint 0 INT_UPPER_LIMIT))"
  "map_of test_object_display ''decimal 2'' =
     Some (decimal_fstring [45] (randint 0 INT_UPPER_LIMIT) (randint 0 INT_UPPER_LIMIT))"
  "map_of test_object_display ''decimal 3'' =
     Some (pmap PFloat (pbind (randint (2 ^ 54) (2 ^ 1000)) py_float))"
  "map_of test_object_display ''decimal 4'' =
     Some (pmap (\<lambda>x. PFloat (- x)) (pbind (randint (2 ^ 54) (2 ^ 1000)) py_float))"
  "map_of test_object_display ''object 1'' =
     Some (pret (PDict [(''meow'', PStr [109, 101, 111, 119])]))"
  "map_of test_object_display ''object 2'' =
     Some (pret (PDict []))"
  "map_of test_object_display ''object 3'' =
     Some (pret (PDict [(''meow'', PDict [])]))"
  "map_of test_object_display ''multi-type array 1'' =
     Some (pret (PList []))"
  "map_of test_object_display ''multi-type array 2'' =
     Some (pret (PList (replicate 100 (PList []))))"
  "map_of test_object_display ''null array 1'' =
     Some (pret (PList [PNone]))"
  "map_of test_object_display ''null array 2'' =
     Some (pret (PList (replicate 10000 PNone)))"
  "map_of test_object_display ''bool array 1'' =
     Some (pret (PList [PBool True]))"
  "map_of test_object_display ''bool array 2'' =
     Some (pret (PList (replicate 10000 (PBool True))))"
  "map_of test_object_display ''bool array 3'' =
     Some (pret (PList [PBool False]))"
  "map_of test_object_display ''bool array 4'' =
     Some (pret (PList (replicate 10000 (PBool False))))"
  "map_of test_object_display ''bool array 5'' =
     Some (pmap (\<lambda>bs. PList (map PBool bs)) (choices [True, False] 10000))"
  "map_of test_object_display ''string array 1'' =
     Some (pmap (\<lambda>ts. PList (map PStr ts)) (listcomp 1000 (utf8_string 100)))"
  "map_of test_object_display ''string array 2'' =
     Some (pmap (\<lambda>ts. PList (map PStr ts)) (listcomp 10000 (utf8_string 2)))"
  "map_of test_object_display ''resizing integer array'' =
     Some (pmap PList (listcomp 10000 (pmap (\<lambda>n. PInt (- n)) (randint 4294967296 72057594037927935))))"
  "map_of test_object_display ''negative resizing integer array'' =
     Some (pmap PList (listcomp 10000 (pmap (\<lambda>n. PInt (- n)) (randint 4294967296 72057594037927935))))"
  "map_of test_object_display ''unsigned 8-bit defined integer array'' =
     Some (pmap PList (listcomp 10000 (pmap PInt (randint 0 255))))"
  "map_of test_object_display ''unsigned 16-bit defined integer array'' =
     Some (pmap PList (listcomp 10000 (pmap PInt (randint 256 65535))))"
  "map_of test_object_display ''unsigned 24-bit defined integer array'' =
     Some (pmap PList (listcomp 10000 (pmap PInt (randint 65536 16777215))))"
  "map_of test_object_display ''unsigned 32-bit defined integer array'' =
     Some (pmap PList (listcomp 10000 (pmap PInt (randint 16777216 4294967295))))"
  "map_of test_object_display ''unsigned 64-bit defined integer array'' =
     Some (pmap PList (listcomp 10000 (pmap PInt (randint 72057594037927936 18446744073709551615))))"
  "map_of test_object_display ''negative 8-bit defined integer array'' =
     Some (pmap PList (listcomp 10000 (pmap (\<lambda>n. PInt (- n)) (randint 0 255))))"
  "map_of test_object_display ''negative 16-bit defined integer array'' =
     Some (pmap PList (listcomp 10000 (pmap (\<lambda>n. PInt (- n)) (randint 256 65535))))"
  "map_of test_object_display ''negative 24-bit defined integer array'' =
     Some (pmap PList (listcomp 10000 (pmap (\<lambda>n. PInt (- n)) (randint 65536 16777215))))"
  "map_of test_object_display ''negative 32-bit defined integer array'' =
     Some (pmap PList (listcomp 10000 (pmap (\<lambda>n. PInt (- n)) (randint 16777216 4294967295))))"
  "map_of test_object_display ''negative 64-bit defined integer array'' =
     Some (pmap PList (listcomp 10000 (pmap (\<lambda>n. PInt (- n)) (randint 72057594037927936 18446744073709551615))))"
  "map_of test_object_display ''big integer array'' =
     Some (pmap PList (listcomp 100 (pmap PInt (randint (2 ^ 2040) INT_UPPER_LIMIT))))"
  "map_of test_object_display ''negative big integer array'' =
     Some (pmap PList (listcomp 100 (pmap PInt (randint (2 ^ 2040) INT_UPPER_LIMIT))))"
  "map_of test_object_display ''decimal array'' =
     Some (pmap PList (listcomp 100 (decimal_fstring [] (randint (- INT_UPPER_LIMIT) INT_UPPER_LIMIT) (randint 0 INT_UPPER_LIMIT))))"
  unfolding test_object_display_def
  by (simp_all only: map_of.simps fun_upd_apply fst_conv snd_conv list.inject char.inject simp_thms if_True if_False list.distinct)

subsection \<open>Integer entries\<close>

lemma list_all_ex_map:
  "list_all (\<lambda>y. \<exists>x. R x \<and> y = f x) ys \<Longrightarrow> \<exists>xs. ys = map f xs \<and> list_all R xs"
proof (induction ys)
  case Nil
  show ?case by simp
next
  case (Cons y ys)
  then obtain x xs where "R x" "y = f x" "ys = map f xs" "list_all R xs"
    by auto
  then have "y # ys = map f (x # xs) \<and> list_all R (x # xs)"
    by simp
  then show ?case by (rule exI)
qed

lemma scalar_entry:
  assumes "\<forall>i. rng s i \<in> A"
    and "map_of test_object_display k = Some (pmap (\<lambda>n. PInt (g n)) (randint a b))"
    and "a \<le> b"
  shows "\<exists>n. drawn A a b n \<and> entry k s = Some (PInt (g n))"
  using entry_display [OF assms(1,2) valid_pmap [OF valid_randint [OF assms(3)]]]
  by blast

lemma array_entry:
  assumes "\<forall>i. rng s i \<in> A"
    and "map_of test_object_display k =
           Some (pmap PList (listcomp m (pmap (\<lambda>n. PInt (g n)) (randint a b))))"
    and "a \<le> b"
  shows "\<exists>ns. length ns = m \<and> list_all (drawn A a b) ns \<and>
           entry k s = Some (PList (map PInt (map g ns)))"
proof -
  from entry_display [OF assms(1,2)
      valid_pmap [OF valid_listcomp [OF valid_pmap [OF valid_randint [OF assms(3)]]]]]
  obtain xs where e: "entry k s = Some (PList xs)" and l: "length xs = m"
    and a: "list_all (\<lambda>y. \<exists>x. drawn A a b x \<and> y = PInt (g x)) xs"
    by blast
  from list_all_ex_map [OF a] obtain ns where "xs = map (\<lambda>n. PInt (g n)) ns"
    and "list_all (drawn A a b) ns"
    by blast
  with e l show ?thesis
    by (intro exI [of _ ns]) (simp add: comp_def)
qed

lemma scalar_satI:
  assumes "map_of test_object_display k = Some (pmap (\<lambda>n. PInt (g n)) (randint a b))"
    and "a \<le> b" and "\<And>n. a \<le> n \<Longrightarrow> n \<le> b \<Longrightarrow> P (g n)"
  shows "scalar_sat k s P"
proof -
  from scalar_entry [OF rng_UNIV assms(1,2)] obtain n
    where "drawn UNIV a b n" "entry k s = Some (PInt (g n))"
    by blast
  with drawn_range [OF assms(2)] assms(3) show ?thesis
    unfolding scalar_sat_def by blast
qed

lemma array_satI:
  assumes "map_of test_object_display k =
             Some (pmap PList (listcomp m (pmap (\<lambda>n. PInt (g n)) (randint a b))))"
    and "a \<le> b" and "\<And>n. a \<le> n \<Longrightarrow> n \<le> b \<Longrightarrow> P (g n)"
  shows "array_sat k s m P"
proof -
  from array_entry [OF rng_UNIV assms(1,2)] obtain ns
    where ns: "length ns = m" "list_all (drawn UNIV a b) ns"
      "entry k s = Some (PList (map PInt (map g ns)))"
    by blast
  from ns(2) drawn_range [OF assms(2)] assms(3) have "list_all P (map g ns)"
    by (auto simp: list_all_iff)
  with ns(1,3) show ?thesis
    unfolding array_sat_def by (intro exI [of _ "map g ns"]) simp
qed

lemma list_all_const: "list_all (\<lambda>n. n = c) ns \<Longrightarrow> ns = replicate (length ns) c"
  by (induction ns) simp_all

lemma scalar_zero:
  assumes "map_of test_object_display k = Some (pmap (\<lambda>n. PInt (g n)) (randint a b))"
    and "a \<le> b"
  shows "entry k zero_runtime = Some (PInt (g a))"
  using scalar_entry [OF rng_zero assms] by (simp add: drawn_const)

lemma array_zero:
  assumes "map_of test_object_display k =
             Some (pmap PList (listcomp m (pmap (\<lambda>n. PInt (g n)) (randint a b))))"
    and "a \<le> b"
  shows "entry k zero_runtime = Some (PList (replicate m (PInt (g a))))"
proof -
  from array_entry [OF rng_zero assms] obtain ns
    where ns: "length ns = m" "list_all (drawn {0} a b) ns"
      "entry k zero_runtime = Some (PList (map PInt (map g ns)))"
    by blast
  have "drawn {0} a b = (\<lambda>n. n = a)"
    by (simp add: fun_eq_iff drawn_const)
  with ns(2) have "list_all (\<lambda>n. n = a) ns"
    by simp
  from list_all_const [OF this] ns(1) have "ns = replicate m a"
    by simp
  with ns(3) show ?thesis
    by simp
qed

text \<open>
  Claim C10. The 8-bit categories labelled negative are at most \<open>0\<close> but not always
  negative: in every run the scalar and all 10,000 array elements are \<open>\<le> 0\<close>, and for the
  random source that always draws \<open>0\<close> the scalar and every array element equal \<open>0\<close>,
  because the magnitude is drawn from \<open>[0, 255]\<close> before it is negated.
\<close>

theorem negative_8bit_reaches_zero:
  "scalar_sat ''negative 8-bit defined integer'' s (\<lambda>n. n \<le> 0) \<and>
   array_sat ''negative 8-bit defined integer array'' s 10000 (\<lambda>n. n \<le> 0) \<and>
   entry ''negative 8-bit defined integer'' zero_runtime = Some (PInt 0) \<and>
   entry ''negative 8-bit defined integer array'' zero_runtime =
     Some (PList (replicate 10000 (PInt 0)))"
proof (intro conjI)
  show "scalar_sat ''negative 8-bit defined integer'' s (\<lambda>n. n \<le> 0)"
    by (rule scalar_satI [where g = uminus, OF lookups(17)]) simp_all
  show "array_sat ''negative 8-bit defined integer array'' s 10000 (\<lambda>n. n \<le> 0)"
    by (rule array_satI [where g = uminus, OF lookups(49)]) simp_all
  show "entry ''negative 8-bit defined integer'' zero_runtime = Some (PInt 0)"
    using scalar_zero [where g = uminus, OF lookups(17)] by simp
  show "entry ''negative 8-bit defined integer array'' zero_runtime =
          Some (PList (replicate 10000 (PInt 0)))"
    using array_zero [where g = uminus, OF lookups(49)] by simp
qed

lemma width_bandI:
  assumes "map_of test_object_display (''unsigned '' @ w @ ''-bit defined integer'') =
             Some (pmap (\<lambda>n. PInt n) (randint a b))"
    and "map_of test_object_display (''unsigned '' @ w @ ''-bit defined integer array'') =
             Some (pmap PList (listcomp 10000 (pmap (\<lambda>n. PInt n) (randint a b))))"
    and "map_of test_object_display (''negative '' @ w @ ''-bit defined integer'') =
             Some (pmap (\<lambda>n. PInt (- n)) (randint a b))"
    and "map_of test_object_display (''negative '' @ w @ ''-bit defined integer array'') =
             Some (pmap PList (listcomp 10000 (pmap (\<lambda>n. PInt (- n)) (randint a b))))"
    and "prev < a" and "a \<le> b" and "b \<le> cur"
  shows "width_band s w prev cur"
  unfolding width_band_def
proof (intro conjI)
  show "scalar_sat (''unsigned '' @ w @ ''-bit defined integer'') s (\<lambda>n. prev < n \<and> n \<le> cur)"
    using assms(5,7) by (intro scalar_satI [where g = "\<lambda>n. n", OF assms(1,6)]) simp
  show "array_sat (''unsigned '' @ w @ ''-bit defined integer array'') s 10000
          (\<lambda>n. prev < n \<and> n \<le> cur)"
    using assms(5,7) by (intro array_satI [where g = "\<lambda>n. n", OF assms(2,6)]) simp
  show "scalar_sat (''negative '' @ w @ ''-bit defined integer'') s
          (\<lambda>n. - cur \<le> n \<and> n < - prev)"
    using assms(5,7) by (intro scalar_satI [where g = uminus, OF assms(3,6)]) simp
  show "array_sat (''negative '' @ w @ ''-bit defined integer array'') s 10000
          (\<lambda>n. - cur \<le> n \<and> n < - prev)"
    using assms(5,7) by (intro array_satI [where g = uminus, OF assms(4,6)]) simp
qed

text \<open>
  Claim C6. For each of the widths 16, 24, 32 and 64, in every run the unsigned scalar and
  each of the 10,000 elements of the unsigned array lie strictly above the previous
  width's maximum and at or below the width's own maximum; the negative scalar and array
  elements lie in the mirrored range.
\<close>

theorem defined_width_bands:
  "width_band s ''16'' 255 65535 \<and>
   width_band s ''24'' 65535 16777215 \<and>
   width_band s ''32'' 16777215 4294967295 \<and>
   width_band s ''64'' 4294967295 18446744073709551615"
proof (intro conjI)
  show "width_band s ''16'' 255 65535"
    by (rule width_bandI [where a = 256 and b = 65535];
        (simp only: append_Cons append_Nil lookups)?; simp)
  show "width_band s ''24'' 65535 16777215"
    by (rule width_bandI [where a = 65536 and b = 16777215];
        (simp only: append_Cons append_Nil lookups)?; simp)
  show "width_band s ''32'' 16777215 4294967295"
    by (rule width_bandI [where a = 16777216 and b = 4294967295];
        (simp only: append_Cons append_Nil lookups)?; simp)
  show "width_band s ''64'' 4294967295 18446744073709551615"
    by (rule width_bandI [where a = 72057594037927936 and b = 18446744073709551615];
        (simp only: append_Cons append_Nil lookups)?; simp)
qed

text \<open>
  Claim C3 against the code. In every run all 10,000 elements of \<open>resizing integer array\<close>
  are negative, between \<open>- (2 ^ 56 - 1)\<close> and \<open>- 2 ^ 32\<close>, and all 100 elements of
  \<open>negative big integer array\<close> are positive, between \<open>2 ^ 2040\<close> and \<open>2 ^ 100000\<close>; for the
  random source that always draws \<open>0\<close> the arrays are 10,000 copies of \<open>- 2 ^ 32\<close> and 100
  copies of \<open>2 ^ 2040\<close>.
\<close>

theorem resizing_and_big_arrays_signs:
  "array_sat ''resizing integer array'' s 10000
     (\<lambda>n. - 72057594037927935 \<le> n \<and> n \<le> - 4294967296) \<and>
   array_sat ''negative big integer array'' s 100
     (\<lambda>n. 2 ^ 2040 \<le> n \<and> n \<le> INT_UPPER_LIMIT) \<and>
   entry ''resizing integer array'' zero_runtime =
     Some (PList (replicate 10000 (PInt (- 4294967296)))) \<and>
   entry ''negative big integer array'' zero_runtime =
     Some (PList (replicate 100 (PInt (2 ^ 2040))))"
proof (intro conjI)
  show "array_sat ''resizing integer array'' s 10000
          (\<lambda>n. - 72057594037927935 \<le> n \<and> n \<le> - 4294967296)"
    by (rule array_satI [where g = uminus, OF lookups(42)]) simp_all
  show "array_sat ''negative big integer array'' s 100
          (\<lambda>n. 2 ^ 2040 \<le> n \<and> n \<le> INT_UPPER_LIMIT)"
    by (rule array_satI [where g = "\<lambda>n. n", OF lookups(55) INT_UPPER_LIMIT_ge]) simp
  show "entry ''resizing integer array'' zero_runtime =
          Some (PList (replicate 10000 (PInt (- 4294967296))))"
    using array_zero [where g = uminus, OF lookups(42)] by simp
  show "entry ''negative big integer array'' zero_runtime =
          Some (PList (replicate 100 (PInt (2 ^ 2040))))"
    by (rule array_zero [where g = "\<lambda>n. n", OF lookups(55) INT_UPPER_LIMIT_ge])
qed

subsection \<open>The aggregate entries and the conversion limit\<close>

lemma corpus_shape:
  obtains d0 s' where
    "corpus s = (Inr (d0 @ [(''multi-type array 3'',
                   PList (map snd d0 @ [PList (map snd d0)]))]), s')"
    and "keys d0 = map fst test_object_display"
    and "list_all strs_ok (map snd d0)"
    and "int_max_str_digits s' = 60207" and "stdout s' = stdout s"
proof -
  from corpus_run [OF rng_UNIV, of s] obtain d0 s' where
    run: "corpus s = (Inr (d0 @ [(''multi-type array 3'',
                   PList (map snd d0 @ [PList (map snd d0)]))]), s')"
    and d0: "built (rt_inv UNIV 60207 (stdout s)) strs_ok test_object_display d0"
    and s': "rt_inv UNIV 60207 (stdout s) s'"
    by blast
  from built_keys [OF d0] have "keys d0 = map fst test_object_display"
    by (simp add: keys_def)
  moreover note built_all [OF d0]
  moreover from s' have "int_max_str_digits s' = 60207" "stdout s' = stdout s"
    by (simp_all add: rt_inv_def)
  ultimately show thesis
    using run by (intro that [of d0 s'])
qed

text \<open>
  Claim C5. In every run the entry \<open>multi-type array 3\<close> is a list whose elements but the
  last are the values of all entries of the dictionary display, in insertion order, and
  whose last element is the list of those preceding elements: a nested copy, a value
  and not a reference back to the list.
\<close>

theorem multi_type_array_3_shape:
  "\<exists>d0 s' xs.
     corpus s = (Inr (d0 @ [(''multi-type array 3'', PList xs)]), s') \<and>
     keys d0 = map fst test_object_display \<and>
     entry ''multi-type array 3'' s = Some (PList xs) \<and>
     butlast xs = map snd d0 \<and>
     last xs = PList (butlast xs)"
proof -
  from corpus_shape [of s] obtain d0 s' where
    run: "corpus s = (Inr (d0 @ [(''multi-type array 3'',
                   PList (map snd d0 @ [PList (map snd d0)]))]), s')"
    and k: "keys d0 = map fst test_object_display"
    by blast
  let ?xs = "map snd d0 @ [PList (map snd d0)]"
  from k test_object_display_keys(2) have "''multi-type array 3'' \<notin> fst ` set d0"
    by (simp add: keys_def flip: set_map)
  then have "map_of d0 ''multi-type array 3'' = None"
    by (simp add: map_of_eq_None_iff)
  with run have "entry ''multi-type array 3'' s = Some (PList ?xs)"
    by (simp add: entry_def result_def map_add_def)
  with run k have
    "corpus s = (Inr (d0 @ [(''multi-type array 3'', PList ?xs)]), s') \<and>
     keys d0 = map fst test_object_display \<and>
     entry ''multi-type array 3'' s = Some (PList ?xs) \<and>
     butlast ?xs = map snd d0 \<and>
     last ?xs = PList (butlast ?xs)"
    by simp
  then show ?thesis
    by blast
qed

lemma str_of_int_INT_UPPER_LIMIT: "length (str_of_int INT_UPPER_LIMIT) = 30103"
  using INT_UPPER_LIMIT_pos
  by (simp add: str_of_int_def length_digits10_INT_UPPER_LIMIT)

text \<open>
  Claim C8. The ceiling of the decimal logarithm of \<open>2 ^ 100000\<close> is \<open>30103\<close>; the first
  statement of the module sets the conversion limit to \<open>2 * 30103 + 1\<close>, which is the
  length of the text of the biggest integer, a point, and the biggest integer again; the
  construction of the corpus, with all its integer-to-string conversions, is run from
  the state that has this limit, it succeeds and leaves the limit in place; and the
  output loop, where \<open>dumps\<close> is called, starts from that state.
\<close>

theorem conversion_limit_configured_first:
  "ceil_log10 INT_UPPER_LIMIT = Inr 30103 \<and>
   configure s = (Inr (), s\<lparr>int_max_str_digits := 2 * 30103 + 1\<rparr>) \<and>
   length (str_of_int INT_UPPER_LIMIT @ [46] @ str_of_int INT_UPPER_LIMIT) = 2 * 30103 + 1 \<and>
   corpus s =
     pbind (dict_display test_object_display []) add_multi_type_array_3
       (s\<lparr>int_max_str_digits := 2 * 30103 + 1\<rparr>) \<and>
   (\<exists>d s'. corpus s = (Inr d, s') \<and> int_max_str_digits s' = 2 * 30103 + 1 \<and>
      main dumps s = emit dumps d s')"
proof (intro conjI)
  show "ceil_log10 INT_UPPER_LIMIT = Inr 30103"
    using INT_UPPER_LIMIT_pos by (simp add: ceil_log10_def clog10_INT_UPPER_LIMIT)
  show c: "configure s = (Inr (), s\<lparr>int_max_str_digits := 2 * 30103 + 1\<rparr>)"
    by (simp add: configure_run)
  show "length (str_of_int INT_UPPER_LIMIT @ [46] @ str_of_int INT_UPPER_LIMIT) = 2 * 30103 + 1"
    by (simp add: str_of_int_INT_UPPER_LIMIT)
  show "corpus s =
     pbind (dict_display test_object_display []) add_multi_type_array_3
       (s\<lparr>int_max_str_digits := 2 * 30103 + 1\<rparr>)"
    by (simp add: corpus_def pbind_def [of configure] c)
  from corpus_shape [of s] obtain d s' where
    "corpus s = (Inr d, s')" "int_max_str_digits s' = 60207"
    by metis
  then have "corpus s = (Inr d, s') \<and> int_max_str_digits s' = 2 * 30103 + 1 \<and>
      main dumps s = emit dumps d s'"
    by (simp add: main_def pbind_def)
  then show "\<exists>d s'. corpus s = (Inr d, s') \<and> int_max_str_digits s' = 2 * 30103 + 1 \<and>
      main dumps s = emit dumps d s'"
    by blast
qed

subsection \<open>The output\<close>

lemma foreach_emit:
  assumes "set ks \<subseteq> set (map fst d)"
  shows "foreach ks (\<lambda>x. pbind (dict_get d x) (\<lambda>v.
            pbind (call_dumps (\<lambda>l v. Inr (ser l v)) v) (\<lambda>t. print t [10]))) s =
         (Inr (), s\<lparr>stdout := stdout s @
            concat (map (\<lambda>k. ser (int_max_str_digits s) (the (map_of d k)) @ [10]) ks)\<rparr>)"
  using assms
proof (induction ks arbitrary: s)
  case Nil
  show ?case by (simp add: pret_def)
next
  case (Cons k ks)
  then have "k \<in> fst ` set d" by simp
  then obtain v where v: "map_of d k = Some v"
    by (metis domD dom_map_of_conv_image_fst)
  let ?s1 = "s\<lparr>stdout := stdout s @ ser (int_max_str_digits s) v @ [10]\<rparr>"
  have step: "pbind (dict_get d k) (\<lambda>v.
            pbind (call_dumps (\<lambda>l v. Inr (ser l v)) v) (\<lambda>t. print t [10])) s = (Inr (), ?s1)"
    using v by (simp add: pbind_def dict_get_def pret_def call_dumps_def print_def)
  from Cons.prems have "set ks \<subseteq> set (map fst d)" by simp
  from Cons.IH [OF this, of ?s1] step v show ?case
    by (simp add: pbind_def)
qed

lemma emit_run:
  assumes "distinct (keys d)"
  shows "emit (\<lambda>l v. Inr (ser l v)) d s =
         (Inr (), s\<lparr>stdout := stdout s @
            concat (map (\<lambda>kv. ser (int_max_str_digits s) (snd kv) @ [10]) d) @
            ser (int_max_str_digits s) (PDict (add_object_4 d))\<rparr>)"
proof -
  let ?L = "int_max_str_digits s"
  have "map (\<lambda>k. ser ?L (the (map_of d k)) @ [10]) (map fst d) =
        map (\<lambda>v. ser ?L v @ [10]) (map (\<lambda>k. the (map_of d k)) (map fst d))"
    by (simp add: comp_def)
  also have "\<dots> = map (\<lambda>v. ser ?L v @ [10]) (map snd d)"
    using assms unfolding keys_def by (simp only: map_the_map_of)
  also have "\<dots> = map (\<lambda>kv. ser ?L (snd kv) @ [10]) d"
    by (simp add: comp_def)
  finally have m: "map (\<lambda>k. ser ?L (the (map_of d k)) @ [10]) (map fst d) =
                   map (\<lambda>kv. ser ?L (snd kv) @ [10]) d" .
  have "foreach (keys d) (\<lambda>x. pbind (dict_get d x) (\<lambda>v.
            pbind (call_dumps (\<lambda>l v. Inr (ser l v)) v) (\<lambda>t. print t [10]))) s =
         (Inr (), s\<lparr>stdout := stdout s @
            concat (map (\<lambda>kv. ser ?L (snd kv) @ [10]) d)\<rparr>)"
    unfolding keys_def using foreach_emit [of "map fst d" d ser s] by (simp only: m)
  then show ?thesis
    by (simp add: emit_def pbind_def call_dumps_def print_def)
qed

lemma main_run:
  obtains d0 d s' where
    "corpus s = (Inr d, s')"
    and "d = d0 @ [(''multi-type array 3'', PList (map snd d0 @ [PList (map snd d0)]))]"
    and "keys d0 = map fst test_object_display"
    and "list_all strs_ok (map snd d0)"
    and "main (\<lambda>l v. Inr (ser l v)) s =
           (Inr (), s'\<lparr>stdout := stdout s @
              concat (map (\<lambda>kv. ser 60207 (snd kv) @ [10]) d) @
              ser 60207 (PDict (add_object_4 d))\<rparr>)"
proof -
  from corpus_shape [of s] obtain d0 s' where
    run: "corpus s = (Inr (d0 @ [(''multi-type array 3'',
                   PList (map snd d0 @ [PList (map snd d0)]))]), s')"
    and k: "keys d0 = map fst test_object_display"
    and ok: "list_all strs_ok (map snd d0)"
    and s': "int_max_str_digits s' = 60207" "stdout s' = stdout s"
    by blast
  let ?d = "d0 @ [(''multi-type array 3'', PList (map snd d0 @ [PList (map snd d0)]))]"
  from k test_object_display_keys(1,2) have "distinct (keys ?d)"
    by (simp add: keys_def)
  from emit_run [OF this, of ser s'] run s'
  have "main (\<lambda>l v. Inr (ser l v)) s =
           (Inr (), s'\<lparr>stdout := stdout s @
              concat (map (\<lambda>kv. ser 60207 (snd kv) @ [10]) ?d) @
              ser 60207 (PDict (add_object_4 ?d))\<rparr>)"
    by (simp add: main_def pbind_def)
  with run k ok show thesis
    by (intro that [of ?d s' d0]) simp_all
qed

text \<open>
  Claim C1. With a serializer that returns a text for every value, every run ends
  normally and has appended to standard output exactly this: for each entry of the corpus,
  in insertion order, the text of its value alone followed by a newline (code point 10),
  and then the text of the whole dictionary, to which \<open>object 4\<close> has been added, with no
  newline after it.
\<close>

theorem stdout_is_one_record_per_entry_then_corpus:
  "\<exists>d s'. corpus s = (Inr d, s') \<and>
     main (\<lambda>l v. Inr (ser l v)) s =
       (Inr (), s'\<lparr>stdout := stdout s @
          concat (map (\<lambda>kv. ser 60207 (snd kv) @ [10]) d) @
          ser 60207 (PDict (add_object_4 d))\<rparr>)"
  using main_run [of s ser] by metis

text \<open>
  Claim C2. The value serialized as the final record is the dictionary \<open>add_object_4 d\<close>,
  where \<open>d\<close> is the corpus whose entries were written before: its keys are the keys of \<open>d\<close>
  followed by the one new key \<open>object 4\<close>, the value under \<open>object 4\<close> is \<open>d\<close> itself as it was
  before the assignment, the entries of \<open>d\<close> are unchanged, and \<open>d\<close> has no key \<open>object 4\<close>.
\<close>

theorem final_record_is_corpus_with_object_4:
  "\<exists>d s'. corpus s = (Inr d, s') \<and>
     main (\<lambda>l v. Inr (ser l v)) s =
       (Inr (), s'\<lparr>stdout := stdout s @
          concat (map (\<lambda>kv. ser 60207 (snd kv) @ [10]) d) @
          ser 60207 (PDict (add_object_4 d))\<rparr>) \<and>
     add_object_4 d = d @ [(''object 4'', PDict d)] \<and>
     keys (add_object_4 d) = keys d @ [''object 4''] \<and>
     distinct (keys (add_object_4 d)) \<and>
     map_of (add_object_4 d) ''object 4'' = Some (PDict d) \<and>
     map_of d ''object 4'' = None"
proof -
  from main_run [of s ser] obtain d0 d s' where
    run: "corpus s = (Inr d, s')"
    and d: "d = d0 @ [(''multi-type array 3'', PList (map snd d0 @ [PList (map snd d0)]))]"
    and k: "keys d0 = map fst test_object_display"
    and m: "main (\<lambda>l v. Inr (ser l v)) s =
           (Inr (), s'\<lparr>stdout := stdout s @
              concat (map (\<lambda>kv. ser 60207 (snd kv) @ [10]) d) @
              ser 60207 (PDict (add_object_4 d))\<rparr>)"
    by blast
  from d k have kd: "keys d = map fst test_object_display @ [''multi-type array 3'']"
    by (simp add: keys_def)
  with test_object_display_keys have fresh: "''object 4'' \<notin> set (map fst d)"
    and dist: "distinct (keys d)"
    by (simp_all add: keys_def)
  from fresh have a: "add_object_4 d = d @ [(''object 4'', PDict d)]"
    unfolding add_object_4_def by (rule dict_set_fresh)
  from fresh have none: "map_of d ''object 4'' = None"
    by (simp add: map_of_eq_None_iff)
  have "keys (add_object_4 d) = keys d @ [''object 4'']"
    by (simp add: a keys_def)
  moreover from dist fresh have "distinct (keys (add_object_4 d))"
    by (simp add: a keys_def)
  moreover from none have "map_of (add_object_4 d) ''object 4'' = Some (PDict d)"
    by (simp add: a map_add_def)
  ultimately show ?thesis
    using run m a none by blast
qed

subsection \<open>Strings\<close>

lemma VALID_UTF8_CHARS_range:
  "set VALID_UTF8_CHARS = {c. 0 \<le> c \<and> non_surrogate (nat c)}"
  unfolding VALID_UTF8_CHARS_set non_surrogate_def by auto

text \<open>
  Claim C7. In every run every string of the final dictionary (the corpus with
  \<open>object 4\<close> added, so every scalar string, every element of a string array and every
  copy nested in \<open>multi-type array 3\<close> and \<open>object 4\<close>, and the keys as well) consists of
  code points below \<open>0x110000\<close> outside \<open>0xD800..0xDFFF\<close>; \<open>string ascii\<close> has exactly 100,000
  code points, all below 128; \<open>string utf-8\<close> has exactly 100,000 code points, all drawn
  from \<open>VALID_UTF8_CHARS\<close>, which is exactly the set of the non-surrogate code points.
\<close>

theorem strings_are_non_surrogate:
  "\<exists>d s'. corpus s = (Inr d, s') \<and>
     strs_ok (PDict (add_object_4 d)) \<and>
     (\<exists>t. entry ''string ascii'' s = Some (PStr t) \<and> length t = 100000 \<and>
        list_all (\<lambda>c. c < 128) t) \<and>
     (\<exists>t. entry ''string utf-8'' s = Some (PStr t) \<and> length t = 100000 \<and>
        list_all (\<lambda>c. int c \<in> set VALID_UTF8_CHARS) t \<and> list_all non_surrogate t) \<and>
     set VALID_UTF8_CHARS = {c. 0 \<le> c \<and> non_surrogate (nat c)}"
proof -
  from main_run [of s "\<lambda>l v. []"] obtain d0 d s' where
    run: "corpus s = (Inr d, s')"
    and d: "d = d0 @ [(''multi-type array 3'', PList (map snd d0 @ [PList (map snd d0)]))]"
    and k: "keys d0 = map fst test_object_display"
    and ok: "list_all strs_ok (map snd d0)"
    by blast
  from d k have kd: "keys d = map fst test_object_display @ [''multi-type array 3'']"
    by (simp add: keys_def)
  with test_object_display_keys have fresh: "''object 4'' \<notin> set (map fst d)"
    by (simp add: keys_def)
  then have a: "add_object_4 d = d @ [(''object 4'', PDict d)]"
    unfolding add_object_4_def by (rule dict_set_fresh)
  from ok have "strs_ok (PDict d)"
    by (simp add: d strs_ok_PDict strs_ok_simps)
  then have "strs_ok (PDict (d @ [(''object 4'', PDict d)]))"
    by (simp add: strs_ok_PDict)
  then have all: "strs_ok (PDict (add_object_4 d))"
    by (simp only: a)
  have ascii: "\<exists>t. entry ''string ascii'' s = Some (PStr t) \<and> length t = 100000 \<and>
        list_all (\<lambda>c. c < 128) t"
  proof -
    from entry_display [OF rng_UNIV lookups(5) valid_pmap [OF valid_ascii_string]]
    obtain cs where e: "entry ''string ascii'' s = Some (PStr (join cs))"
      and l: "length (join cs) = 100000"
      and r: "list_all (\<lambda>c. \<exists>n. drawn UNIV 0 127 n \<and> c = nat n) (join cs)"
      by blast
    have "c < 128" if "\<exists>n. drawn UNIV 0 127 n \<and> c = nat n" for c
    proof -
      from that obtain n where n: "drawn UNIV 0 127 n" "c = nat n" by blast
      have "0 \<le> n \<and> n \<le> 127"
        by (rule drawn_range [OF _ n(1)]) simp
      with n(2) show ?thesis by linarith
    qed
    with r have "list_all (\<lambda>c. c < 128) (join cs)"
      by (simp add: list_all_iff)
    with e l show ?thesis by blast
  qed
  have utf8: "\<exists>t. entry ''string utf-8'' s = Some (PStr t) \<and> length t = 100000 \<and>
        list_all (\<lambda>c. int c \<in> set VALID_UTF8_CHARS) t \<and> list_all non_surrogate t"
  proof -
    from entry_display [OF rng_UNIV lookups(6) valid_pmap [OF valid_utf8_string]]
    obtain xs where e: "entry ''string utf-8'' s = Some (PStr (map nat xs))"
      and l: "length xs = 100000"
      and r: "list_all (picked UNIV VALID_UTF8_CHARS) xs"
      by blast
    have mem: "x \<in> set VALID_UTF8_CHARS" if "x \<in> set xs" for x
      using r that
      by (intro picked_mem [OF VALID_UTF8_CHARS_nonempty, of UNIV]) (simp add: list_all_iff)
    then have "int (nat x) \<in> set VALID_UTF8_CHARS \<and> non_surrogate (nat x)"
      if "x \<in> set xs" for x
      using that VALID_UTF8_CHARS_range by force
    then have "list_all (\<lambda>c. int c \<in> set VALID_UTF8_CHARS) (map nat xs)"
      and "list_all non_surrogate (map nat xs)"
      by (simp_all add: list_all_iff)
    with e l show ?thesis
      by (intro exI [of _ "map nat xs"]) simp
  qed
  from run all ascii utf8 VALID_UTF8_CHARS_range show ?thesis
    by blast
qed

end
